theory Spec2Isabelle
  imports Complex_Main "HOL-Library.Word" "HOL-Library.Log_Nat"
begin

unbundle bit_operations_syntax

text \<open>
  A shallow embedding of the \<open>vite-react-tailwind\<close> template: the server's configuration
  module, its Express application and its lifecycle, and the counter page of the client.
  The first part translates the code, together with the JavaScript built-ins and the parts
  of Node and Express it relies on; the second part proves the properties.
\<close>

section \<open>JavaScript values\<close>

text \<open>
  A JavaScript string is a sequence of UTF-16 code units. String literals of the source are
  written \<open>S ''...''\<close>.
\<close>

type_synonym jschar = "16 word"
type_synonym jsstring = "jschar list"

definition S :: "string \<Rightarrow> jsstring" where
  "S cs = map of_char cs"

text \<open>
  The Numbers that \<open>parseInt\<close> and counting by one produce: \<open>NaN\<close>, the two infinities and
  integer values (\<open>-0\<close> is identified with \<open>0\<close>; the two compare equal under \<open>===\<close>).
  \<open>Finite n\<close> is only built from an \<open>n\<close> that a double represents exactly.
\<close>

datatype js_number = NaN | Finite int | PosInfinity | NegInfinity

text \<open>
  The Number value of a non-negative mathematical integer: round to nearest, ties to even,
  at 53 bits of significand. Magnitudes below \<open>2^53\<close> are exact.
\<close>

definition round_to_double :: "int \<Rightarrow> int" where
  "round_to_double a =
     (if a < 2 ^ 53 then a
      else let e = nat (bitlen a) - 53;
               q = a div 2 ^ e;
               r = a mod 2 ^ e;
               half = 2 ^ (e - 1)
           in (if r < half \<or> (r = half \<and> even q) then q else q + 1) * 2 ^ e)"

definition to_number :: "int \<Rightarrow> js_number" where
  "to_number n =
     (let m = round_to_double \<bar>n\<bar>
      in if 2 ^ 1024 \<le> m then (if n < 0 then NegInfinity else PosInfinity)
         else Finite (sgn n * m))"

definition isNaN :: "js_number \<Rightarrow> bool" where
  "isNaN x \<longleftrightarrow> x = NaN"

subsection \<open>\<open>parseInt(string, 10)\<close>\<close>

text \<open>
  ECMAScript's \<open>parseInt\<close> at radix 10: leading white space and line terminators are trimmed,
  one sign is read, the longest prefix of decimal digits is taken; no digit gives \<open>NaN\<close>,
  anything after the digits is ignored. The result is the Number of the exact value of the
  digits (ECMAScript allows an implementation to approximate past the 20th significant digit;
  the model rounds the exact value).
\<close>

definition isWhiteSpace :: "jschar \<Rightarrow> bool" where
  "isWhiteSpace c \<longleftrightarrow>
     c = 0x9 \<or> c = 0xA \<or> c = 0xB \<or> c = 0xC \<or> c = 0xD \<or> c = 0x20 \<or> c = 0xA0 \<or>
     c = 0x1680 \<or> (0x2000 \<le> c \<and> c \<le> 0x200A) \<or> c = 0x2028 \<or> c = 0x2029 \<or>
     c = 0x202F \<or> c = 0x205F \<or> c = 0x3000 \<or> c = 0xFEFF"

definition isDigit :: "jschar \<Rightarrow> bool" where
  "isDigit c \<longleftrightarrow> 0x30 \<le> c \<and> c \<le> 0x39"

definition digitValue :: "jschar \<Rightarrow> int" where
  "digitValue c = uint c - 48"

definition mathInt :: "jsstring \<Rightarrow> int" where
  "mathInt z = foldl (\<lambda>a c. 10 * a + digitValue c) 0 z"

definition isSign :: "jschar \<Rightarrow> bool" where
  "isSign c \<longleftrightarrow> c = 0x2B \<or> c = 0x2D"

definition parseInt10 :: "jsstring \<Rightarrow> js_number" where
  "parseInt10 inputString =
     (let s = dropWhile isWhiteSpace inputString;
          sign = (if s \<noteq> [] \<and> hd s = 0x2D then - 1 else 1);
          s' = (if s \<noteq> [] \<and> isSign (hd s) then tl s else s);
          z = takeWhile isDigit s'
      in if z = [] then NaN else to_number (sign * mathInt z))"

section \<open>Configuration (server/src/config/config.ts)\<close>

text \<open>
  \<open>process.env\<close> as the helpers read it, that is after \<open>dotenv\<close> has loaded the \<open>.env\<close> file:
  a variable is absent (\<open>undefined\<close>) or holds a string.
\<close>

type_synonym process_env = "jsstring \<rightharpoonup> jsstring"

text \<open>\<open>a || b\<close> on an optional string: \<open>undefined\<close> and the empty string are falsy.\<close>

definition js_or :: "jsstring option \<Rightarrow> jsstring \<Rightarrow> jsstring" where
  "js_or a b = (case a of None \<Rightarrow> b | Some v \<Rightarrow> if v = [] then b else v)"

definition env :: "process_env \<Rightarrow> jsstring \<Rightarrow> jsstring \<Rightarrow> jsstring" where
  "env E key defaultValue = js_or (E key) defaultValue"

definition envNumber :: "process_env \<Rightarrow> jsstring \<Rightarrow> js_number \<Rightarrow> js_number" where
  "envNumber E key defaultValue =
     (case E key of
        None \<Rightarrow> defaultValue
      | Some v \<Rightarrow> let parsed = parseInt10 v in if isNaN parsed then defaultValue else parsed)"

record server_config =
  port :: js_number
  nodeEnv :: jsstring
  isDev :: bool
  isProd :: bool
  clientUrl :: jsstring
  logLevel :: jsstring
  requestTimeout :: js_number

definition serverConfig :: "process_env \<Rightarrow> server_config" where
  "serverConfig E =
     \<lparr> port = envNumber E (S ''PORT'') (Finite 3000),
       nodeEnv = env E (S ''NODE_ENV'') (S ''development''),
       isDev = (env E (S ''NODE_ENV'') (S ''development'') = S ''development''),
       isProd = (env E (S ''NODE_ENV'') (S ''development'') = S ''production''),
       clientUrl = S ''http://localhost:'' @ env E (S ''VITE_DEV_PORT'') (S ''5173''),
       logLevel = env E (S ''LOG_LEVEL'') (S ''info''),
       requestTimeout = envNumber E (S ''REQUEST_TIMEOUT'') (Finite 30000) \<rparr>"

text \<open>
  Two readings of "a string that is a number", both independent of \<open>parseInt\<close>:
  \<open>isIntegerLiteral\<close> holds of an optional sign followed by decimal digits and nothing else;
  \<open>hasIntegerPrefix\<close> holds when, after leading white space, an optional sign is followed by
  at least one decimal digit.
\<close>

definition isIntegerLiteral :: "jsstring \<Rightarrow> bool" where
  "isIntegerLiteral s \<longleftrightarrow>
     (let ds = (if s \<noteq> [] \<and> isSign (hd s) then tl s else s)
      in ds \<noteq> [] \<and> list_all isDigit ds)"

definition hasIntegerPrefix :: "jsstring \<Rightarrow> bool" where
  "hasIntegerPrefix s \<longleftrightarrow>
     (case dropWhile isWhiteSpace s of
        [] \<Rightarrow> False
      | c # cs \<Rightarrow> if isSign c then (case cs of [] \<Rightarrow> False | d # _ \<Rightarrow> isDigit d) else isDigit c)"

definition startsWithDigit :: "jsstring \<Rightarrow> bool" where
  "startsWithDigit s \<longleftrightarrow> (case s of [] \<Rightarrow> False | c # _ \<Rightarrow> isDigit c)"

definition stripSign :: "jsstring \<Rightarrow> jsstring" where
  "stripSign s = (if s \<noteq> [] \<and> isSign (hd s) then tl s else s)"

definition signOf :: "jsstring \<Rightarrow> int" where
  "signOf s = (if s \<noteq> [] \<and> hd s = 0x2D then - 1 else 1)"

definition integerValue :: "jsstring \<Rightarrow> int" where
  "integerValue s = signOf s * mathInt (stripSign s)"

section \<open>The interactive page (client/src/pages/AppPage/AppPage.tsx)\<close>

text \<open>\<open>c + 1\<close> on a Number: the exact sum, rounded to the nearest double.\<close>

definition js_add1 :: "js_number \<Rightarrow> js_number" where
  "js_add1 x = (case x of NaN \<Rightarrow> NaN | Finite n \<Rightarrow> to_number (n + 1)
                 | PosInfinity \<Rightarrow> PosInfinity | NegInfinity \<Rightarrow> NegInfinity)"

text \<open>
  The state of one mounted \<open>AppPage\<close>: the two \<open>useState\<close> cells. \<open>message\<close> is \<open>None\<close> when
  the health response carried no \<open>message\<close> field (\<open>undefined\<close>).
\<close>

record app_page =
  count :: js_number
  message :: "jsstring option"

text \<open>
  What happens to a mounted page: the button is clicked, or the \<open>fetch\<close> started by the
  effect settles (with the \<open>message\<close> field of the parsed body, or with a failure).
\<close>

datatype app_event = ClickIncrement | FetchResolved "jsstring option" | FetchRejected

definition AppPage_mount :: app_page where
  "AppPage_mount = \<lparr> count = Finite 0, message = Some [] \<rparr>"

fun AppPage_on :: "app_page \<Rightarrow> app_event \<Rightarrow> app_page" where
  "AppPage_on st ClickIncrement = st\<lparr> count := js_add1 (count st) \<rparr>"
| "AppPage_on st (FetchResolved m) = st\<lparr> message := m \<rparr>"
| "AppPage_on st FetchRejected = st\<lparr> message := Some (S ''Server not connected'') \<rparr>"

definition AppPage_after :: "app_event list \<Rightarrow> app_page" where
  "AppPage_after es = foldl AppPage_on AppPage_mount es"

text \<open>The number rendered in the counter paragraph, and the text of the status paragraph.\<close>

definition displayed_counter :: "app_page \<Rightarrow> js_number" where
  "displayed_counter st = count st"

definition displayed_status :: "app_page \<Rightarrow> jsstring" where
  "displayed_status st = js_or (message st) (S ''Loading...'')"

definition clicks :: "app_event list \<Rightarrow> nat" where
  "clicks es = length (filter (\<lambda>e. e = ClickIncrement) es)"

section \<open>Dates (\<open>new Date().toISOString()\<close>)\<close>

text \<open>
  A time value is a number of milliseconds since 1970-01-01T00:00:00Z; a \<open>Date\<close> holds one
  of magnitude at most \<open>8.64e15\<close>. \<open>new Date()\<close> is the current time, always such a value.
\<close>

definition msPerDay :: int where "msPerDay = 86400000"

definition valid_time :: "int \<Rightarrow> bool" where
  "valid_time t \<longleftrightarrow> \<bar>t\<bar> \<le> 8640000000000000"

definition Day :: "int \<Rightarrow> int" where "Day t = t div msPerDay"

definition TimeWithinDay :: "int \<Rightarrow> int" where "TimeWithinDay t = t mod msPerDay"

text \<open>
  The proleptic Gregorian calendar. \<open>civil_from_days\<close> turns a day number (days since the
  epoch) into year, month (1 to 12) and day of the month: it counts from 1 March of year 0 in
  cycles of 400, 100, 4 and 1 years, so that the leap day is the last day of a cycle.
  \<open>days_from_civil\<close> is ECMAScript's \<open>MakeDay\<close>.
\<close>

definition isLeapYear :: "int \<Rightarrow> bool" where
  "isLeapYear y \<longleftrightarrow> y mod 4 = 0 \<and> (y mod 100 \<noteq> 0 \<or> y mod 400 = 0)"

definition daysInMonth :: "int \<Rightarrow> int \<Rightarrow> int" where
  "daysInMonth y m =
     (if m = 2 then (if isLeapYear y then 29 else 28)
      else if m = 4 \<or> m = 6 \<or> m = 9 \<or> m = 11 then 30 else 31)"

definition civil_from_days :: "int \<Rightarrow> int \<times> int \<times> int" where
  "civil_from_days d =
     (let z = d + 719468;
          n400 = z div 146097; d1 = z mod 146097;
          n100 = min 3 (d1 div 36524); d2 = d1 - n100 * 36524;
          n4 = d2 div 1461; d3 = d2 mod 1461;
          n1 = min 3 (d3 div 365); doy = d3 - n1 * 365;
          y = 400 * n400 + 100 * n100 + 4 * n4 + n1;
          mp = (5 * doy + 2) div 153;
          dd = doy - (153 * mp + 2) div 5 + 1;
          m = (if mp < 10 then mp + 3 else mp - 9)
      in (if m \<le> 2 then y + 1 else y, m, dd))"

definition days_from_civil :: "int \<Rightarrow> int \<Rightarrow> int \<Rightarrow> int" where
  "days_from_civil y m d =
     (let y' = (if m \<le> 2 then y - 1 else y);
          mp = (if 2 < m then m - 3 else m + 9);
          doy = (153 * mp + 2) div 5 + d - 1
      in 365 * y' + y' div 4 - y' div 100 + y' div 400 + doy - 719468)"

text \<open>
  \<open>Date.prototype.toISOString\<close>: \<open>YYYY-MM-DDTHH:mm:ss.sssZ\<close>, with the expanded year
  of a sign and six digits outside 0 to 9999.
\<close>

definition digitChar :: "int \<Rightarrow> jschar" where
  "digitChar v = word_of_int (48 + v)"

fun pad :: "nat \<Rightarrow> int \<Rightarrow> jsstring" where
  "pad 0 k = []"
| "pad (Suc n) k = pad n (k div 10) @ [digitChar (k mod 10)]"

definition yearString :: "int \<Rightarrow> jsstring" where
  "yearString y =
     (if 0 \<le> y \<and> y \<le> 9999 then pad 4 y
      else (if y < 0 then S ''-'' else S ''+'') @ pad 6 \<bar>y\<bar>)"

definition toISOString :: "int \<Rightarrow> jsstring" where
  "toISOString t =
     (let (y, m, d) = civil_from_days (Day t);
          ms = TimeWithinDay t
      in yearString y @ S ''-'' @ pad 2 m @ S ''-'' @ pad 2 d @ S ''T'' @
         pad 2 (ms div 3600000) @ S '':'' @ pad 2 (ms div 60000 mod 60) @ S '':'' @
         pad 2 (ms div 1000 mod 60) @ S ''.'' @ pad 3 (ms mod 1000) @ S ''Z'')"

text \<open>
  \<open>Date.parse\<close> on the complete UTC form of the date-time string format: the fields are read
  at their fixed places and range-checked (the day against the length of the month), and the
  time value is clipped to the range of \<open>Date\<close>. \<open>None\<close> is \<open>NaN\<close>, an invalid date.
\<close>

definition digits :: "jsstring \<Rightarrow> int option" where
  "digits ds = (if ds \<noteq> [] \<and> list_all isDigit ds then Some (mathInt ds) else None)"

definition parseYear :: "jsstring \<Rightarrow> (int \<times> jsstring) option" where
  "parseYear s =
     (if s \<noteq> [] \<and> isSign (hd s) then
        (case digits (take 6 (tl s)) of
           None \<Rightarrow> None
         | Some y \<Rightarrow>
             if length (take 6 (tl s)) \<noteq> 6 \<or> (hd s = 0x2D \<and> y = 0) then None
             else Some (if hd s = 0x2D then - y else y, drop 7 s))
      else
        (case digits (take 4 s) of
           None \<Rightarrow> None
         | Some y \<Rightarrow> if length (take 4 s) \<noteq> 4 then None else Some (y, drop 4 s)))"

definition field :: "jschar \<Rightarrow> nat \<Rightarrow> jsstring \<Rightarrow> (int \<times> jsstring) option" where
  "field sep n s =
     (if s \<noteq> [] \<and> hd s = sep \<and> length (take n (tl s)) = n then
        (case digits (take n (tl s)) of None \<Rightarrow> None | Some v \<Rightarrow> Some (v, drop (Suc n) s))
      else None)"

definition Date_parse :: "jsstring \<Rightarrow> int option" where
  "Date_parse s =
     (case parseYear s of None \<Rightarrow> None | Some (y, s1) \<Rightarrow>
      case field 0x2D 2 s1 of None \<Rightarrow> None | Some (m, s2) \<Rightarrow>
      case field 0x2D 2 s2 of None \<Rightarrow> None | Some (d, s3) \<Rightarrow>
      case field 0x54 2 s3 of None \<Rightarrow> None | Some (hh, s4) \<Rightarrow>
      case field 0x3A 2 s4 of None \<Rightarrow> None | Some (mi, s5) \<Rightarrow>
      case field 0x3A 2 s5 of None \<Rightarrow> None | Some (ss, s6) \<Rightarrow>
      case field 0x2E 3 s6 of None \<Rightarrow> None | Some (ms, s7) \<Rightarrow>
        if s7 = S ''Z'' \<and> 1 \<le> m \<and> m \<le> 12 \<and> 1 \<le> d \<and> d \<le> daysInMonth y m \<and>
           (hh \<le> 23 \<or> (hh = 24 \<and> mi = 0 \<and> ss = 0 \<and> ms = 0)) \<and> mi \<le> 59 \<and> ss \<le> 59
        then (let tv = days_from_civil y m d * msPerDay + hh * 3600000 + mi * 60000 + ss * 1000 + ms
              in if valid_time tv then Some tv else None)
        else None)"

section \<open>The Node.js process\<close>

text \<open>
  What the server code reads and writes of its process: the system clock (the \<open>n\<close>-th reading
  is \<open>clock p n\<close>; \<open>reads\<close> counts the readings taken so far), the high-resolution time since
  the process started, and the console.
\<close>

datatype console_call = Log jsstring | Info jsstring

record process =
  clock :: "nat \<Rightarrow> int"
  reads :: nat
  uptime_ns :: nat
  console :: "console_call list"

definition new_Date :: "'a process_scheme \<Rightarrow> int \<times> 'a process_scheme" where
  "new_Date p = (clock p (reads p), p\<lparr> reads := Suc (reads p) \<rparr>)"

definition process_uptime :: "'a process_scheme \<Rightarrow> real" where
  "process_uptime p = real (uptime_ns p) / 10 ^ 9"

definition console_log :: "jsstring \<Rightarrow> 'a process_scheme \<Rightarrow> 'a process_scheme" where
  "console_log line p = p\<lparr> console := console p @ [Log line] \<rparr>"

definition console_info :: "jsstring \<Rightarrow> 'a process_scheme \<Rightarrow> 'a process_scheme" where
  "console_info line p = p\<lparr> console := console p @ [Info line] \<rparr>"

definition clock_ok :: "'a process_scheme \<Rightarrow> bool" where
  "clock_ok p \<longleftrightarrow> (\<forall>n. valid_time (clock p n))"

section \<open>The Express application (\<open>createApp\<close>, server/src/app.ts)\<close>

subsection \<open>Requests and responses\<close>

text \<open>
  A request is its method, its request target \<open>req.url\<close> and its headers \<open>req.headers\<close>, which
  Node keys by the header name in lower case. \<open>OtherMethod name\<close> stands for a method other
  than the seven that have a constructor of their own, by its name.
\<close>

datatype http_method = GET | HEAD | POST | PUT | DELETE | PATCH | OPTIONS | OtherMethod jsstring

fun method_name :: "http_method \<Rightarrow> jsstring" where
  "method_name GET = S ''GET''"
| "method_name HEAD = S ''HEAD''"
| "method_name POST = S ''POST''"
| "method_name PUT = S ''PUT''"
| "method_name DELETE = S ''DELETE''"
| "method_name PATCH = S ''PATCH''"
| "method_name OPTIONS = S ''OPTIONS''"
| "method_name (OtherMethod name) = name"

record request =
  req_method :: http_method
  req_url :: jsstring
  req_headers :: "jsstring \<rightharpoonup> jsstring"

text \<open>
  A response is its status code, its body and the part of the application that sent it.
\<close>

datatype json = JString jsstring | JNumber real | JObject "(jsstring \<times> json) list"

datatype stage = Helmet | Cors | Compression | RequestLogger | JsonParser | UrlencodedParser

datatype handler = HealthHandler | ApiHealthHandler

datatype origin = ByHandler handler | ByStage stage | ByRouterOptions | ByFinalHandler

datatype body = NoBody | JsonBody json | AllowBody "http_method list" | ErrorPage

record response =
  status :: nat
  body :: body
  sent_by :: origin

subsection \<open>The packages outside the repository\<close>

text \<open>
  A middleware passes the request on (\<open>next()\<close>), ends the response itself, or fails
  (\<open>next(err)\<close>, with the status the error carries). \<open>helmet\<close>, \<open>cors\<close>, \<open>compression\<close>,
  \<open>express.json\<close> and \<open>express.urlencoded\<close> are packages outside the repository: their
  behaviour is the parameter \<open>middleware\<close> of the model. Three more things that the
  application's answers depend on are fixed outside the repository and are parameters too:
  the pathname that Node's legacy \<open>url.parse\<close> finds in a request target (Express calls it
  for the targets that its own fast path does not read), the entity tag that Express
  computes from a response body (a hash of the body), and the major version of Express,
  which decides the release of the \<open>fresh\<close> package that judges conditional requests.
\<close>

datatype outcome = Next | End nat | Fail nat

datatype express_major = Express4 | Express5

record third_party =
  middleware :: "stage \<Rightarrow> request \<Rightarrow> outcome"
  url_parse :: "jsstring \<Rightarrow> jsstring"
  etag :: "json \<Rightarrow> jsstring"
  express :: express_major

subsection \<open>The path of a request (\<open>parseurl\<close>)\<close>

text \<open>
  Express routes on \<open>parseurl(req).pathname\<close>. For a target that begins with a slash and
  holds no \<open>#\<close> and no white space, \<open>parseurl\<close> reads the pathname itself: it is the target up
  to the first \<open>?\<close>. Every other target (one with a fragment, or in absolute form
  \<open>scheme://host/path\<close>) goes to \<open>url.parse\<close>. The model covers the targets in which a
  pathname is found; a target without one reaches no layer of the stack, Express hands it
  to the final handler at once.
\<close>

definition needs_url_parse :: "jschar \<Rightarrow> bool" where
  "needs_url_parse c \<longleftrightarrow>
     c = 0x09 \<or> c = 0x0A \<or> c = 0x0C \<or> c = 0x0D \<or> c = 0x20 \<or> c = 0x23 \<or> c = 0xA0 \<or> c = 0xFEFF"

definition fastparse :: "third_party \<Rightarrow> jsstring \<Rightarrow> jsstring" where
  "fastparse L str =
     (if str = [] \<or> hd str \<noteq> 0x2F \<or> list_ex needs_url_parse (tl str) then url_parse L str
      else takeWhile (\<lambda>c. c \<noteq> 0x3F) str)"

definition pathname :: "third_party \<Rightarrow> request \<Rightarrow> jsstring" where
  "pathname L req = fastparse L (req_url req)"

subsection \<open>Conditional requests (\<open>req.fresh\<close>) and \<open>res.json\<close>\<close>

text \<open>
  \<open>res.json\<close> sends through \<open>res.send\<close>, which gives the response the entity tag of its body
  and then asks \<open>req.fresh\<close>: for a \<open>GET\<close> or \<open>HEAD\<close> request that the \<open>fresh\<close> package finds
  fresh the status becomes 304 and the body is dropped. Otherwise the status stays 200 and
  the body is the value as JSON; a \<open>HEAD\<close> request gets no body.

  \<open>fresh\<close> compares the request headers with the \<open>ETag\<close> and \<open>Last-Modified\<close> headers of the
  response. No part of the application sets \<open>Last-Modified\<close>, so a request is never fresh by
  its \<open>If-Modified-Since\<close> header; in the release that Express 4 uses, the presence of that
  header even makes the request stale.
\<close>

definition truthy :: "jsstring option \<Rightarrow> bool" where
  "truthy v \<longleftrightarrow> v \<noteq> None \<and> v \<noteq> Some []"

definition header_value :: "jsstring option \<Rightarrow> jsstring" where
  "header_value v = (case v of None \<Rightarrow> [] | Some s \<Rightarrow> s)"

fun split_commas :: "jsstring \<Rightarrow> jsstring list" where
  "split_commas [] = [[]]"
| "split_commas (c # cs) =
     (if c = 0x2C then [] # split_commas cs
      else (case split_commas cs of [] \<Rightarrow> [[c]] | p # ps \<Rightarrow> (c # p) # ps))"

definition trim :: "(jschar \<Rightarrow> bool) \<Rightarrow> jsstring \<Rightarrow> jsstring" where
  "trim P s = rev (dropWhile P (rev (dropWhile P s)))"

definition parseTokenList :: "jsstring \<Rightarrow> jsstring list" where
  "parseTokenList str = map (trim (\<lambda>c. c = 0x20)) (split_commas str)"

definition no_cache :: "jsstring \<Rightarrow> bool" where
  "no_cache cacheControl \<longleftrightarrow>
     list_ex (\<lambda>directive. trim isWhiteSpace directive = S ''no-cache'') (split_commas cacheControl)"

definition etag_matches :: "jsstring \<Rightarrow> jsstring \<Rightarrow> bool" where
  "etag_matches tag m \<longleftrightarrow> m = tag \<or> m = S ''W/'' @ tag \<or> S ''W/'' @ m = tag"

definition fresh :: "express_major \<Rightarrow> (jsstring \<rightharpoonup> jsstring) \<Rightarrow> jsstring \<Rightarrow> bool" where
  "fresh v reqHeaders tag =
     (let modifiedSince = reqHeaders (S ''if-modified-since'');
          noneMatch = reqHeaders (S ''if-none-match'');
          cacheControl = reqHeaders (S ''cache-control'');
          tagMatch = (tag \<noteq> [] \<and> list_ex (etag_matches tag) (parseTokenList (header_value noneMatch)))
      in if \<not> truthy modifiedSince \<and> \<not> truthy noneMatch then False
         else if truthy cacheControl \<and> no_cache (header_value cacheControl) then False
         else (case v of
                 Express4 \<Rightarrow>
                   (if truthy noneMatch \<and> noneMatch \<noteq> Some (S ''*'') \<and> \<not> tagMatch then False
                    else \<not> truthy modifiedSince)
               | Express5 \<Rightarrow>
                   (if truthy noneMatch then noneMatch = Some (S ''*'') \<or> tagMatch
                    else False)))"

definition req_fresh :: "third_party \<Rightarrow> request \<Rightarrow> jsstring \<Rightarrow> bool" where
  "req_fresh L req tag \<longleftrightarrow>
     (req_method req = GET \<or> req_method req = HEAD) \<and> fresh (express L) (req_headers req) tag"

definition res_json :: "third_party \<Rightarrow> request \<Rightarrow> handler \<Rightarrow> json \<Rightarrow> response" where
  "res_json L req h j =
     (let stale = \<not> req_fresh L req (etag L j)
      in \<lparr> status = (if stale then 200 else 304),
           body = (if stale \<and> req_method req \<noteq> HEAD then JsonBody j else NoBody),
           sent_by = ByHandler h \<rparr>)"

subsection \<open>Middleware and handlers\<close>

text \<open>\<open>requestLogger\<close> is the repository's own middleware.\<close>

definition requestLogger :: "request \<Rightarrow> process \<Rightarrow> outcome \<times> process" where
  "requestLogger req p =
     (let (t, p1) = new_Date p;
          timestamp = toISOString t
      in (Next, console_info (S ''['' @ timestamp @ S ''] '' @ method_name (req_method req) @
                              S '' '' @ req_url req) p1))"

definition healthHandler :: "third_party \<Rightarrow> request \<Rightarrow> process \<Rightarrow> response \<times> process" where
  "healthHandler L req p =
     (let (t, p1) = new_Date p
      in (res_json L req HealthHandler
            (JObject [(S ''status'', JString (S ''ok'')),
                      (S ''timestamp'', JString (toISOString t)),
                      (S ''uptime'', JNumber (process_uptime p1))]), p1))"

text \<open>
  Modelled from the spec: the handler of \<open>routes/health.ts\<close>, which is imported by
  \<open>createApp\<close> and is not among the source files. By the spec, a \<open>GET\<close> of \<open>/api/health\<close> is
  answered 200 with the JSON body of \<open>status: "ok"\<close>, \<open>message: "Server is running"\<close> and
  \<open>timestamp\<close>: the current time. How the absent handler sends its answer is not known; the
  model gives it the status and the body that the spec states.
\<close>

definition apiHealthHandler :: "request \<Rightarrow> process \<Rightarrow> response \<times> process" where
  "apiHealthHandler req p =
     (let (t, p1) = new_Date p
      in (\<lparr> status = 200,
            body = (if req_method req = HEAD then NoBody
                    else JsonBody
                      (JObject [(S ''status'', JString (S ''ok'')),
                                (S ''message'', JString (S ''Server is running'')),
                                (S ''timestamp'', JString (toISOString t))])),
            sent_by = ByHandler ApiHealthHandler \<rparr>, p1))"

fun run_handler :: "third_party \<Rightarrow> handler \<Rightarrow> request \<Rightarrow> process \<Rightarrow> response \<times> process" where
  "run_handler L HealthHandler = healthHandler L"
| "run_handler L ApiHealthHandler = apiHealthHandler"

subsection \<open>The stack that \<open>createApp\<close> builds\<close>

datatype route = Route http_method jsstring handler

datatype layer = Use stage | AppRoute route | Mount jsstring "route list"

text \<open>
  Modelled from the spec: the router exported by \<open>routes/health.ts\<close>, which is not among the
  source files; it holds the one \<open>GET\<close> route that the spec describes, at its root.
\<close>

definition healthRouter :: "route list" where
  "healthRouter = [Route GET (S ''/'') ApiHealthHandler]"

definition createApp :: "layer list" where
  "createApp =
     [Use Helmet, Use Cors, Use Compression, Use RequestLogger, Use JsonParser,
      Use UrlencodedParser,
      AppRoute (Route GET (S ''/health'') HealthHandler),
      Mount (S ''/api/health'') healthRouter]"

subsection \<open>Dispatch\<close>

text \<open>
  Express matches paths without regard to the case of ASCII letters and with an optional
  trailing slash. A route matches the whole path, a mount point a prefix of it that ends at a
  slash or at the end; the mounted router sees the rest of the path. A \<open>GET\<close> route also
  serves \<open>HEAD\<close>.
\<close>

definition lower :: "jschar \<Rightarrow> jschar" where
  "lower c = (if 0x41 \<le> c \<and> c \<le> 0x5A then c + 0x20 else c)"

definition match_route :: "jsstring \<Rightarrow> jsstring \<Rightarrow> bool" where
  "match_route pat path \<longleftrightarrow>
     map lower path = map lower pat \<or> map lower path = map lower pat @ S ''/''"

definition match_mount :: "jsstring \<Rightarrow> jsstring \<Rightarrow> jsstring option" where
  "match_mount pat path =
     (let rest = drop (length pat) path
      in if map lower (take (length pat) path) = map lower pat \<and> (rest = [] \<or> hd rest = 0x2F)
         then Some (if rest = [] \<or> rest = S ''/'' then S ''/'' else rest)
         else None)"

definition handles :: "http_method \<Rightarrow> http_method \<Rightarrow> bool" where
  "handles m r \<longleftrightarrow> r = m \<or> (r = HEAD \<and> m = GET)"

fun route_methods :: "http_method \<Rightarrow> http_method list" where
  "route_methods GET = [GET, HEAD]"
| "route_methods m = [m]"

text \<open>
  Layers run in the order of registration until one of them answers. A router that found the
  path of an \<open>OPTIONS\<close> request on routes of other methods answers it itself with the methods
  allowed. When no layer answers, the final handler sends 404; after \<open>next(err)\<close> it sends
  the status of the error.
\<close>

datatype step = Ran stage | Routed handler | SentOptions | FinalHandler

record exchange =
  reply :: response
  steps :: "step list"
  after :: process

definition options_response :: "http_method list \<Rightarrow> response" where
  "options_response allow = \<lparr> status = 200, body = AllowBody allow, sent_by = ByRouterOptions \<rparr>"

definition finalhandler :: "nat \<Rightarrow> response" where
  "finalhandler code = \<lparr> status = code, body = ErrorPage, sent_by = ByFinalHandler \<rparr>"

definition run_stage :: "third_party \<Rightarrow> stage \<Rightarrow> request \<Rightarrow> process \<Rightarrow> outcome \<times> process" where
  "run_stage L s req p =
     (if s = RequestLogger then requestLogger req p else (middleware L s req, p))"

fun run_router ::
  "request \<Rightarrow> jsstring \<Rightarrow> route list \<Rightarrow> http_method list \<Rightarrow> handler + http_method list" where
  "run_router req path [] allow = Inr allow"
| "run_router req path (Route m pat h # rs) allow =
     (if match_route pat path then
        (if handles m (req_method req) then Inl h
         else run_router req path rs
                (if req_method req = OPTIONS then allow @ route_methods m else allow))
      else run_router req path rs allow)"

fun run_stack ::
  "third_party \<Rightarrow> request \<Rightarrow> layer list \<Rightarrow> step list \<Rightarrow> http_method list \<Rightarrow> process \<Rightarrow> exchange" where
  "run_stack L req [] tr allow p =
     (if req_method req = OPTIONS \<and> allow \<noteq> []
      then \<lparr> reply = options_response allow, steps = tr @ [SentOptions], after = p \<rparr>
      else \<lparr> reply = finalhandler 404, steps = tr @ [FinalHandler], after = p \<rparr>)"
| "run_stack L req (Use s # ls) tr allow p =
     (case run_stage L s req p of
        (Next, p') \<Rightarrow> run_stack L req ls (tr @ [Ran s]) allow p'
      | (End code, p') \<Rightarrow>
          \<lparr> reply = \<lparr> status = code, body = NoBody, sent_by = ByStage s \<rparr>,
            steps = tr @ [Ran s], after = p' \<rparr>
      | (Fail code, p') \<Rightarrow>
          \<lparr> reply = finalhandler code, steps = tr @ [Ran s, FinalHandler], after = p' \<rparr>)"
| "run_stack L req (AppRoute r # ls) tr allow p =
     (case run_router req (pathname L req) [r] allow of
        Inl h \<Rightarrow> (let (resp, p') = run_handler L h req p
                  in \<lparr> reply = resp, steps = tr @ [Routed h], after = p' \<rparr>)
      | Inr allow' \<Rightarrow> run_stack L req ls tr allow' p)"
| "run_stack L req (Mount pat rs # ls) tr allow p =
     (case match_mount pat (pathname L req) of
        None \<Rightarrow> run_stack L req ls tr allow p
      | Some inner \<Rightarrow>
          (case run_router req inner rs [] of
             Inl h \<Rightarrow> (let (resp, p') = run_handler L h req p
                       in \<lparr> reply = resp, steps = tr @ [Routed h], after = p' \<rparr>)
           | Inr inner_allow \<Rightarrow>
               if req_method req = OPTIONS \<and> inner_allow \<noteq> []
               then \<lparr> reply = options_response inner_allow, steps = tr @ [SentOptions], after = p \<rparr>
               else run_stack L req ls tr allow p))"

definition app_handle :: "third_party \<Rightarrow> process \<Rightarrow> request \<Rightarrow> exchange" where
  "app_handle L p req = run_stack L req createApp [] [] p"


subsection \<open>Notions used in the statements\<close>

definition pipeline_order :: "stage list" where
  "pipeline_order = [Helmet, Cors, Compression, RequestLogger, JsonParser, UrlencodedParser]"


fun is_route_layer :: "layer \<Rightarrow> bool" where
  "is_route_layer (Use s) = False"
| "is_route_layer _ = True"

fun stages_run :: "step list \<Rightarrow> stage list" where
  "stages_run [] = []"
| "stages_run (Ran s # xs) = s # stages_run xs"
| "stages_run (_ # xs) = stages_run xs"

definition passes :: "third_party \<Rightarrow> request \<Rightarrow> bool" where
  "passes L req \<longleftrightarrow>
     middleware L Helmet req = Next \<and> middleware L Cors req = Next \<and>
     middleware L Compression req = Next \<and> middleware L JsonParser req = Next \<and>
     middleware L UrlencodedParser req = Next"

text \<open>
  A request matches a registered route when some route of the stack has its path and
  answers its method: the method of the route, \<open>HEAD\<close> for a \<open>GET\<close> route, or \<open>OPTIONS\<close>,
  which the router answers itself for a routed path.
\<close>

fun route_answers :: "request \<Rightarrow> jsstring \<Rightarrow> route \<Rightarrow> bool" where
  "route_answers req path (Route m pat h) \<longleftrightarrow>
     match_route pat path \<and> (handles m (req_method req) \<or> req_method req = OPTIONS)"

fun layer_answers :: "third_party \<Rightarrow> request \<Rightarrow> layer \<Rightarrow> bool" where
  "layer_answers L req (Use s) = False"
| "layer_answers L req (AppRoute r) = route_answers req (pathname L req) r"
| "layer_answers L req (Mount pat rs) =
     (case match_mount pat (pathname L req) of
        None \<Rightarrow> False
      | Some inner \<Rightarrow> list_ex (route_answers req inner) rs)"

definition matches_registered_route :: "third_party \<Rightarrow> request \<Rightarrow> bool" where
  "matches_registered_route L req \<longleftrightarrow> list_ex (layer_answers L req) createApp"

text \<open>The same, in the words of the claim: the method and the paths that are routed.\<close>

definition routed_paths :: "jsstring list" where
  "routed_paths =
     [S ''/health'', S ''/health/'', S ''/api/health'', S ''/api/health/'', S ''/api/health//'']"

definition routed :: "third_party \<Rightarrow> request \<Rightarrow> bool" where
  "routed L req \<longleftrightarrow>
     (req_method req = GET \<or> req_method req = HEAD \<or> req_method req = OPTIONS) \<and>
     map lower (pathname L req) \<in> set routed_paths"

definition logged :: "request \<Rightarrow> process \<Rightarrow> process" where
  "logged req p = snd (requestLogger req p)"

definition health_body :: "int \<Rightarrow> real \<Rightarrow> json" where
  "health_body t up =
     JObject [(S ''status'', JString (S ''ok'')),
              (S ''timestamp'', JString (toISOString t)),
              (S ''uptime'', JNumber up)]"

subsection \<open>Concrete inputs for the examples\<close>

text \<open>
  For the examples, \<open>url.parse\<close> is given on the targets of the forms \<open>/path?query#fragment\<close>
  and \<open>scheme://host/path?query#fragment\<close>: the scheme and the host are dropped, the
  pathname ends at the first \<open>?\<close> or \<open>#\<close>, and it is \<open>/\<close> when nothing is left.
\<close>

definition ends_host :: "jschar \<Rightarrow> bool" where
  "ends_host c \<longleftrightarrow> c = 0x2F \<or> c = 0x3F \<or> c = 0x23"

definition drop_protohost :: "jsstring \<Rightarrow> jsstring" where
  "drop_protohost u =
     (let rest = dropWhile (\<lambda>c. c \<noteq> 0x3A) u
      in if u \<noteq> [] \<and> hd u \<noteq> 0x2F \<and> take 3 rest = S ''://''
         then dropWhile (\<lambda>c. \<not> ends_host c) (drop 3 rest) else u)"

definition example_url_parse :: "jsstring \<Rightarrow> jsstring" where
  "example_url_parse u =
     (let path = takeWhile (\<lambda>c. c \<noteq> 0x3F \<and> c \<noteq> 0x23) (drop_protohost u)
      in if path = [] then S ''/'' else path)"

definition example_etag :: "json \<Rightarrow> jsstring" where
  "example_etag j = S ''W/'' @ [0x22] @ S ''2a-example'' @ [0x22]"

text \<open>Packages that pass every request on.\<close>

definition all_pass :: third_party where
  "all_pass =
     \<lparr> middleware = (\<lambda>s req. Next), url_parse = example_url_parse, etag = example_etag,
       express = Express4 \<rparr>"

text \<open>
  The packages as \<open>createApp\<close> configures them, on a request without a body: \<open>helmet\<close> and
  \<open>compression\<close> set up the response and pass the request on, the body parsers have nothing
  to read, and \<open>cors\<close>, which is not given \<open>preflightContinue\<close>, ends every \<open>OPTIONS\<close> request
  with its \<open>optionsSuccessStatus\<close>, 204, and passes every other request on.
\<close>

definition configured_packages :: third_party where
  "configured_packages =
     \<lparr> middleware = (\<lambda>s req. if s = Cors \<and> req_method req = OPTIONS then End 204 else Next),
       url_parse = example_url_parse, etag = example_etag, express = Express4 \<rparr>"

definition example_process :: process where
  "example_process = \<lparr> clock = (\<lambda>n. 1762041600000), reads = 0, uptime_ns = 1500000000, console = [] \<rparr>"

definition example_request :: "http_method \<Rightarrow> string \<Rightarrow> request" where
  "example_request m url = \<lparr> req_method = m, req_url = S url, req_headers = Map.empty \<rparr>"

definition conditional_request :: "http_method \<Rightarrow> string \<Rightarrow> string \<Rightarrow> request" where
  "conditional_request m url tag =
     \<lparr> req_method = m, req_url = S url, req_headers = [S ''if-none-match'' \<mapsto> S tag] \<rparr>"

section \<open>The server lifecycle (server/src/index.ts)\<close>

text \<open>
  \<open>httpServer.close(cb)\<close> is Node's \<open>net.Server.prototype.close\<close>: the callback becomes a
  one-time listener of the \<open>close\<close> event (called with an error when the server was not
  listening), the listening handle is dropped, and the event is emitted on a later tick once
  no connection is left. The repository's tests replace \<open>close\<close> by a mock that calls the
  callback at once. The only callback the source passes is the one that logs the
  confirmation; it ignores its argument.
\<close>

datatype callback = ServerClosedCallback

datatype task = EmitClose

datatype close_impl = NodeClose | MockClose

record server =
  listening :: bool
  connections :: nat
  close_listeners :: "(callback \<times> bool) list"
  close_impl :: close_impl

record server_process = process +
  httpServer :: server
  nextTick :: "task list"

definition closed_line :: jsstring where
  "closed_line = S ''[Server] HTTP server closed''"

definition received_line :: "jsstring \<Rightarrow> jsstring" where
  "received_line signal = 0xA # S ''[Server] '' @ signal @ S '' received, shutting down gracefully...''"

fun run_callback :: "callback \<Rightarrow> server_process \<Rightarrow> server_process" where
  "run_callback ServerClosedCallback w = console_log closed_line w"

definition emitCloseIfDrained :: "server_process \<Rightarrow> server_process" where
  "emitCloseIfDrained w =
     (if listening (httpServer w) \<or> 0 < connections (httpServer w) then w
      else w\<lparr> nextTick := nextTick w @ [EmitClose] \<rparr>)"

definition net_Server_close :: "callback \<Rightarrow> server_process \<Rightarrow> server_process" where
  "net_Server_close cb w =
     (let srv = httpServer w;
          srv' = srv\<lparr> close_listeners := close_listeners srv @ [(cb, \<not> listening srv)],
                      listening := False \<rparr>
      in emitCloseIfDrained (w\<lparr> httpServer := srv' \<rparr>))"

definition mock_close :: "callback \<Rightarrow> server_process \<Rightarrow> server_process" where
  "mock_close cb w = run_callback cb w"

definition httpServer_close :: "callback \<Rightarrow> server_process \<Rightarrow> server_process" where
  "httpServer_close cb w =
     (case close_impl (httpServer w) of
        NodeClose \<Rightarrow> net_Server_close cb w
      | MockClose \<Rightarrow> mock_close cb w)"

definition gracefulShutdown :: "jsstring \<Rightarrow> server_process \<Rightarrow> server_process" where
  "gracefulShutdown signal w =
     httpServer_close ServerClosedCallback (console_log (received_line signal) w)"

definition emit_close :: "server_process \<Rightarrow> server_process" where
  "emit_close w =
     foldl (\<lambda>w' l. run_callback (fst l) w')
       (w\<lparr> httpServer := (httpServer w)\<lparr> close_listeners := [] \<rparr> \<rparr>)
       (close_listeners (httpServer w))"

fun run_task :: "server_process \<Rightarrow> task \<Rightarrow> server_process" where
  "run_task w EmitClose = emit_close w"

definition run_nextTicks :: "server_process \<Rightarrow> server_process" where
  "run_nextTicks w = foldl run_task (w\<lparr> nextTick := [] \<rparr>) (nextTick w)"

definition example_server :: "close_impl \<Rightarrow> server_process" where
  "example_server impl =
     \<lparr> clock = (\<lambda>n. 1762041600000), reads = 0, uptime_ns = 1500000000, console = [],
       httpServer = \<lparr> listening = True, connections = 0, close_listeners = [], close_impl = impl \<rparr>,
       nextTick = [] \<rparr>"

text \<open>
  What happens to the server process between and after calls of \<open>gracefulShutdown\<close>: a
  termination signal calls it, the queued \<open>nextTick\<close> tasks run, and connections come (only
  while the server listens) and go. When a connection ends Node lowers the count and, like
  \<open>close\<close>, asks whether the server has drained.
\<close>

datatype event = Shutdown jsstring | Tick | ConnectionOpened | ConnectionEnded

definition connection_opened :: "server_process \<Rightarrow> server_process" where
  "connection_opened w =
     (let srv = httpServer w
      in if listening srv then w\<lparr> httpServer := srv\<lparr> connections := Suc (connections srv) \<rparr> \<rparr>
         else w)"

definition connection_ended :: "server_process \<Rightarrow> server_process" where
  "connection_ended w =
     (let srv = httpServer w
      in if connections srv = 0 then w
         else emitCloseIfDrained (w\<lparr> httpServer := srv\<lparr> connections := connections srv - 1 \<rparr> \<rparr>))"

fun on_event :: "server_process \<Rightarrow> event \<Rightarrow> server_process" where
  "on_event w (Shutdown signal) = gracefulShutdown signal w"
| "on_event w Tick = run_nextTicks w"
| "on_event w ConnectionOpened = connection_opened w"
| "on_event w ConnectionEnded = connection_ended w"

definition run_events :: "server_process \<Rightarrow> event list \<Rightarrow> server_process" where
  "run_events w es = foldl on_event w es"

subsection \<open>Notions used in the statements\<close>

fun shutdown_calls :: "event list \<Rightarrow> jsstring list" where
  "shutdown_calls [] = []"
| "shutdown_calls (Shutdown signal # es) = signal # shutdown_calls es"
| "shutdown_calls (_ # es) = shutdown_calls es"

definition reports :: "jsstring \<Rightarrow> server_process \<Rightarrow> nat" where
  "reports signal w = count_list (console w) (Log (received_line signal))"

definition confirmations :: "server_process \<Rightarrow> nat" where
  "confirmations w = count_list (console w) (Log closed_line)"

definition waiting_callbacks :: "server_process \<Rightarrow> nat" where
  "waiting_callbacks w = length (close_listeners (httpServer w))"

text \<open>
  A server with callbacks waiting for \<open>close\<close> either is still open (it listens, or has
  connections) or has the event queued. This holds of a server on which nothing waits, so
  of every server before its first \<open>close\<close>, and every event keeps it.
\<close>

definition close_scheduled :: "server_process \<Rightarrow> bool" where
  "close_scheduled w \<longleftrightarrow>
     close_listeners (httpServer w) = [] \<or> listening (httpServer w) \<or>
     0 < connections (httpServer w) \<or> EmitClose \<in> set (nextTick w)"

definition has_closed :: "server_process \<Rightarrow> bool" where
  "has_closed w \<longleftrightarrow>
     \<not> listening (httpServer w) \<and> connections (httpServer w) = 0 \<and> nextTick w = []"

definition drain :: "server_process \<Rightarrow> event list" where
  "drain w = replicate (connections (httpServer w)) ConnectionEnded @ [Tick]"

definition example_busy_server :: server_process where
  "example_busy_server =
     \<lparr> clock = (\<lambda>n. 1762041600000), reads = 0, uptime_ns = 1500000000, console = [],
       httpServer = \<lparr> listening = True, connections = 2, close_listeners = [], close_impl = NodeClose \<rparr>,
       nextTick = [] \<rparr>"


section \<open>Verification\<close>

subsection \<open>Facts about \<open>parseInt\<close>\<close>

lemma to_number_not_NaN: "to_number n \<noteq> NaN"
  by (simp add: to_number_def Let_def)

lemma to_number_exact: "\<bar>n\<bar> < 2 ^ 53 \<Longrightarrow> to_number n = Finite n"
proof -
  assume a: "\<bar>n\<bar> < 2 ^ 53"
  have "(2::int) ^ 53 < 2 ^ 1024" by simp
  with a have "\<not> (2::int) ^ 1024 \<le> \<bar>n\<bar>" by linarith
  moreover have "sgn n * \<bar>n\<bar> = n" by (simp add: mult_sgn_abs)
  ultimately show ?thesis using a by (simp add: to_number_def round_to_double_def)
qed

lemma parseInt10_NaN_iff: "parseInt10 s = NaN \<longleftrightarrow> \<not> hasIntegerPrefix s"
proof (cases "dropWhile isWhiteSpace s")
  case Nil
  then show ?thesis
    by (simp add: parseInt10_def hasIntegerPrefix_def del: dropWhile_eq_Nil_conv)
next
  case (Cons c cs)
  show ?thesis
  proof (cases "isSign c")
    case True
    then show ?thesis using Cons
      by (cases cs) (simp_all add: parseInt10_def hasIntegerPrefix_def Let_def to_number_not_NaN)
  next
    case False
    then show ?thesis using Cons
      by (simp add: parseInt10_def hasIntegerPrefix_def Let_def to_number_not_NaN)
  qed
qed

lemma isDigit_not_ws: "isDigit c \<Longrightarrow> \<not> isWhiteSpace c"
  unfolding isDigit_def isWhiteSpace_def
  by (auto simp: word_le_def word_less_def)

lemma isSign_not_ws: "isSign c \<Longrightarrow> \<not> isWhiteSpace c"
  unfolding isSign_def isWhiteSpace_def by auto

lemma isSign_not_digit: "isSign c \<Longrightarrow> \<not> isDigit c"
  unfolding isSign_def isDigit_def by auto

lemma takeWhile_digits_prefix:
  assumes "list_all isDigit ds" and "\<not> startsWithDigit rest"
  shows "takeWhile isDigit (ds @ rest) = ds"
proof -
  have "takeWhile isDigit rest = []"
    using assms(2) by (cases rest) (auto simp: startsWithDigit_def)
  moreover have "\<forall>x\<in>set ds. isDigit x"
    using assms(1) by (simp add: list_all_iff)
  ultimately show ?thesis by simp
qed

lemma dropWhile_ws_prefix:
  assumes "list_all isWhiteSpace ws" and "\<not> isWhiteSpace c"
  shows "dropWhile isWhiteSpace (ws @ c # cs) = c # cs"
  using assms by (simp add: list_all_iff)

lemma parseInt10_unsigned_prefix:
  assumes "list_all isWhiteSpace ws" and "ds \<noteq> []" and "list_all isDigit ds"
    and "\<not> startsWithDigit rest"
  shows "parseInt10 (ws @ ds @ rest) = to_number (mathInt ds)"
proof -
  obtain d ds' where ds: "ds = d # ds'" using assms(2) by (cases ds) auto
  have d: "isDigit d" using assms(3) ds by simp
  have "dropWhile isWhiteSpace (ws @ ds @ rest) = ds @ rest"
    using dropWhile_ws_prefix[OF assms(1) isDigit_not_ws[OF d]] ds by simp
  moreover have ns: "\<not> isSign d" using d isSign_not_digit by blast
  moreover have "d \<noteq> 0x2D" using ns by (auto simp: isSign_def)
  ultimately show ?thesis
    using takeWhile_digits_prefix[OF assms(3,4)] assms(2) ds
    by (simp add: parseInt10_def Let_def)
qed

lemma parseInt10_signed_prefix:
  assumes "list_all isWhiteSpace ws" and "isSign c" and "ds \<noteq> []" and "list_all isDigit ds"
    and "\<not> startsWithDigit rest"
  shows "parseInt10 (ws @ c # ds @ rest) = to_number ((if c = 0x2D then - 1 else 1) * mathInt ds)"
proof -
  have "dropWhile isWhiteSpace (ws @ c # ds @ rest) = c # ds @ rest"
    using dropWhile_ws_prefix[OF assms(1) isSign_not_ws[OF assms(2)]] by simp
  then show ?thesis
    using takeWhile_digits_prefix[OF assms(4,5)] assms(2,3)
    by (simp add: parseInt10_def Let_def)
qed

lemma parseInt10_integer_literal:
  assumes "isIntegerLiteral s"
  shows "parseInt10 s = to_number (integerValue s)"
proof (cases "s \<noteq> [] \<and> isSign (hd s)")
  case True
  then obtain c ds where s: "s = c # ds" and c: "isSign c" by (cases s) auto
  have ds: "ds \<noteq> []" "list_all isDigit ds"
    using assms s c by (simp_all add: isIntegerLiteral_def)
  have "parseInt10 ([] @ c # ds @ []) = to_number ((if c = 0x2D then - 1 else 1) * mathInt ds)"
    by (rule parseInt10_signed_prefix) (use c ds in \<open>simp_all add: startsWithDigit_def\<close>)
  then show ?thesis using s c by (simp add: integerValue_def signOf_def stripSign_def)
next
  case False
  then have ds: "s \<noteq> []" "list_all isDigit s" and strip: "stripSign s = s"
    using assms by (auto simp: isIntegerLiteral_def stripSign_def)
  then obtain d where "isDigit (hd s)" by (cases s) auto
  then have "hd s \<noteq> 0x2D" using isSign_not_digit by (auto simp: isSign_def)
  moreover have "parseInt10 ([] @ s @ []) = to_number (mathInt s)"
    by (rule parseInt10_unsigned_prefix) (use ds in \<open>simp_all add: startsWithDigit_def\<close>)
  ultimately show ?thesis using strip by (simp add: integerValue_def signOf_def)
qed

lemma envNumber_cases:
  "envNumber E key d =
     (case E key of None \<Rightarrow> d | Some v \<Rightarrow> if hasIntegerPrefix v then parseInt10 v else d)"
  by (simp add: envNumber_def isNaN_def parseInt10_NaN_iff Let_def split: option.splits)


lemmas js_eval = S_def parseInt10_def isWhiteSpace_def isSign_def isDigit_def mathInt_def
  digitValue_def to_number_def round_to_double_def isNaN_def

subsection \<open>The environment helpers and the derived flags\<close>

text \<open>
  Claim C8. For every key and default, \<open>env\<close> returns the environment value verbatim when it
  is present and not empty, and the default when it is absent or the empty string. The helper
  has no failing branch: it is a total function of the environment, the key and the default.
\<close>

theorem env_resolution:
  "(\<forall>v. E key = Some v \<and> v \<noteq> [] \<longrightarrow> env E key d = v) \<and>
   (E key = Some [] \<longrightarrow> env E key d = d) \<and>
   (E key = None \<longrightarrow> env E key d = d)"
  by (simp add: env_def js_or_def)

theorem env_resolution_witness:
  "env (Map.empty(S ''LOG_LEVEL'' \<mapsto> S ''debug'')) (S ''LOG_LEVEL'') (S ''info'') = S ''debug'' \<and>
   env (Map.empty(S ''LOG_LEVEL'' \<mapsto> [])) (S ''LOG_LEVEL'') (S ''info'') = S ''info'' \<and>
   env Map.empty (S ''LOG_LEVEL'') (S ''info'') = S ''info''"
  using env_resolution [of "Map.empty(S ''LOG_LEVEL'' \<mapsto> S ''debug'')" "S ''LOG_LEVEL''" "S ''info''"]
    env_resolution [of "Map.empty(S ''LOG_LEVEL'' \<mapsto> [])" "S ''LOG_LEVEL''" "S ''info''"]
    env_resolution [of "Map.empty" "S ''LOG_LEVEL''" "S ''info''"]
  by (simp add: S_def)

text \<open>
  Claim C7. \<open>isDev\<close> holds exactly when the resolved \<open>nodeEnv\<close> is \<open>"development"\<close>, \<open>isProd\<close>
  exactly when it is \<open>"production"\<close>; the two never hold together, both are false for any
  other resolved value, and an absent \<open>NODE_ENV\<close> resolves to \<open>"development"\<close>, so \<open>isDev\<close>
  holds.
\<close>

theorem serverConfig_flags:
  "isDev (serverConfig E) = (nodeEnv (serverConfig E) = S ''development'') \<and>
   isProd (serverConfig E) = (nodeEnv (serverConfig E) = S ''production'') \<and>
   \<not> (isDev (serverConfig E) \<and> isProd (serverConfig E)) \<and>
   (nodeEnv (serverConfig E) \<noteq> S ''development'' \<and> nodeEnv (serverConfig E) \<noteq> S ''production''
      \<longrightarrow> \<not> isDev (serverConfig E) \<and> \<not> isProd (serverConfig E)) \<and>
   (E (S ''NODE_ENV'') = None
      \<longrightarrow> nodeEnv (serverConfig E) = S ''development'' \<and> isDev (serverConfig E) \<and> \<not> isProd (serverConfig E)) \<and>
   (\<forall>v. E (S ''NODE_ENV'') = Some v \<and> v \<noteq> [] \<longrightarrow> nodeEnv (serverConfig E) = v)"
proof -
  have ne: "S ''development'' \<noteq> S ''production''" by (simp add: S_def)
  show ?thesis using ne by (auto simp: serverConfig_def env_def js_or_def)
qed

theorem serverConfig_flags_witness:
  "isDev (serverConfig Map.empty) \<and> \<not> isProd (serverConfig Map.empty) \<and>
   isProd (serverConfig (Map.empty(S ''NODE_ENV'' \<mapsto> S ''production''))) \<and>
   \<not> isDev (serverConfig (Map.empty(S ''NODE_ENV'' \<mapsto> S ''production''))) \<and>
   \<not> isDev (serverConfig (Map.empty(S ''NODE_ENV'' \<mapsto> S ''test''))) \<and>
   \<not> isProd (serverConfig (Map.empty(S ''NODE_ENV'' \<mapsto> S ''test'')))"
proof -
  have t: "nodeEnv (serverConfig (Map.empty(S ''NODE_ENV'' \<mapsto> S ''test''))) = S ''test''"
    by (simp add: serverConfig_def env_def js_or_def S_def)
  have p: "nodeEnv (serverConfig (Map.empty(S ''NODE_ENV'' \<mapsto> S ''production''))) = S ''production''"
    by (simp add: serverConfig_def env_def js_or_def S_def)
  have n: "S ''test'' \<noteq> S ''development''" "S ''test'' \<noteq> S ''production''" "S ''production'' \<noteq> S ''development''"
    by (simp_all add: S_def)
  show ?thesis
    using serverConfig_flags [of Map.empty]
      serverConfig_flags [of "Map.empty(S ''NODE_ENV'' \<mapsto> S ''production'')"]
      serverConfig_flags [of "Map.empty(S ''NODE_ENV'' \<mapsto> S ''test'')"] t p n
    by simp
qed

subsection \<open>The port\<close>

text \<open>
  Claim C6, as stated, promises the default port for every non-numeric string. The string
  \<open>"80abc"\<close> is not a number, and the resolved port is 80, not 3000.
\<close>

theorem port_non_numeric_counterexample:
  "\<not> isIntegerLiteral (S ''80abc'') \<and>
   port (serverConfig (Map.empty(S ''PORT'' \<mapsto> S ''80abc''))) = Finite 80 \<and>
   port (serverConfig (Map.empty(S ''PORT'' \<mapsto> S ''80abc''))) \<noteq> Finite 3000"
  by (simp add: serverConfig_def envNumber_def isIntegerLiteral_def js_eval)

text \<open>
  Claim C6, amended. Resolution of \<open>PORT\<close> is total. The port is the default 3000 when
  \<open>PORT\<close> is absent, and when its value has no integer prefix (after leading white space, an
  optional sign is not followed by a decimal digit; the empty string is such a value).
  Otherwise the port is \<open>parseInt(value, 10)\<close>, which is not \<open>NaN\<close>; for a value that is an
  integer literal it is the Number of the integer the literal denotes.
\<close>

theorem port_resolution:
  "(E (S ''PORT'') = None \<longrightarrow> port (serverConfig E) = Finite 3000) \<and>
   (\<forall>s. E (S ''PORT'') = Some s \<and> \<not> hasIntegerPrefix s \<longrightarrow> port (serverConfig E) = Finite 3000) \<and>
   (\<forall>s. E (S ''PORT'') = Some s \<and> hasIntegerPrefix s
      \<longrightarrow> port (serverConfig E) = parseInt10 s \<and> parseInt10 s \<noteq> NaN) \<and>
   (\<forall>s. E (S ''PORT'') = Some s \<and> isIntegerLiteral s
      \<longrightarrow> port (serverConfig E) = to_number (integerValue s))"
proof -
  have lit: "hasIntegerPrefix s" if "isIntegerLiteral s" for s
    using parseInt10_integer_literal[OF that] parseInt10_NaN_iff[of s] to_number_not_NaN by force
  show ?thesis
    using lit
    by (auto simp: serverConfig_def envNumber_cases parseInt10_NaN_iff parseInt10_integer_literal)
qed

theorem port_resolution_witness:
  "port (serverConfig Map.empty) = Finite 3000 \<and>
   port (serverConfig (Map.empty(S ''PORT'' \<mapsto> S ''not-a-number''))) = Finite 3000 \<and>
   port (serverConfig (Map.empty(S ''PORT'' \<mapsto> []))) = Finite 3000 \<and>
   port (serverConfig (Map.empty(S ''PORT'' \<mapsto> S ''4000''))) = Finite 4000"
proof -
  have a: "\<not> hasIntegerPrefix (S ''not-a-number'')" "\<not> hasIntegerPrefix []"
    by (simp_all add: hasIntegerPrefix_def js_eval)
  have b: "isIntegerLiteral (S ''4000'')" "to_number (integerValue (S ''4000'')) = Finite 4000"
    by (simp_all add: isIntegerLiteral_def integerValue_def signOf_def stripSign_def js_eval)
  show ?thesis
    using port_resolution [of Map.empty]
      port_resolution [of "Map.empty(S ''PORT'' \<mapsto> S ''not-a-number'')"]
      port_resolution [of "Map.empty(S ''PORT'' \<mapsto> [])"]
      port_resolution [of "Map.empty(S ''PORT'' \<mapsto> S ''4000'')"] a b
    by simp
qed

text \<open>
  Claim C10. \<open>envNumber\<close> has \<open>parseInt\<close>'s prefix semantics: a value made of optional white
  space, an optional sign, decimal digits and then anything that does not start with a digit
  resolves to the Number of the digits (negated after a minus sign), not to the default. The
  default is returned only when the variable is absent or \<open>parseInt\<close> gives \<open>NaN\<close>.
\<close>

theorem envNumber_prefix_semantics:
  "(list_all isWhiteSpace ws \<and> ds \<noteq> [] \<and> list_all isDigit ds \<and> \<not> startsWithDigit rest \<and>
      E key = Some (ws @ ds @ rest)
      \<longrightarrow> envNumber E key d = to_number (mathInt ds)) \<and>
   (list_all isWhiteSpace ws \<and> isSign c \<and> ds \<noteq> [] \<and> list_all isDigit ds \<and> \<not> startsWithDigit rest \<and>
      E key = Some (ws @ c # ds @ rest)
      \<longrightarrow> envNumber E key d = to_number ((if c = 0x2D then - 1 else 1) * mathInt ds)) \<and>
   (\<forall>s. E key = Some s \<and> parseInt10 s \<noteq> NaN \<longrightarrow> envNumber E key d = parseInt10 s) \<and>
   (envNumber E key d \<noteq> d \<longrightarrow> (\<exists>s. E key = Some s \<and> parseInt10 s \<noteq> NaN))"
proof -
  have "parseInt10 (ws @ ds @ rest) \<noteq> NaN \<and> parseInt10 (ws @ ds @ rest) = to_number (mathInt ds)"
    if "list_all isWhiteSpace ws" "ds \<noteq> []" "list_all isDigit ds" "\<not> startsWithDigit rest"
    using parseInt10_unsigned_prefix[OF that] to_number_not_NaN by simp
  moreover have "parseInt10 (ws @ c # ds @ rest) \<noteq> NaN \<and>
      parseInt10 (ws @ c # ds @ rest) = to_number ((if c = 0x2D then - 1 else 1) * mathInt ds)"
    if "list_all isWhiteSpace ws" "isSign c" "ds \<noteq> []" "list_all isDigit ds" "\<not> startsWithDigit rest"
    using parseInt10_signed_prefix[OF that] to_number_not_NaN by simp
  ultimately show ?thesis
    by (auto simp: envNumber_def isNaN_def Let_def split: option.splits)
qed

theorem envNumber_prefix_semantics_witness:
  "envNumber (Map.empty(S ''PORT'' \<mapsto> S ''80abc'')) (S ''PORT'') (Finite 3000) = Finite 80 \<and>
   envNumber (Map.empty(S ''PORT'' \<mapsto> S ''3.9'')) (S ''PORT'') (Finite 3000) = Finite 3 \<and>
   envNumber (Map.empty(S ''PORT'' \<mapsto> S '' -12px'')) (S ''PORT'') (Finite 3000) = Finite (- 12)"
proof -
  have e1: "S ''80abc'' = [] @ S ''80'' @ S ''abc''" "S ''3.9'' = [] @ S ''3'' @ S ''.9''"
    "S '' -12px'' = S '' '' @ 0x2D # S ''12'' @ S ''px''"
    by (simp_all add: S_def)
  have h: "list_all isWhiteSpace []" "list_all isWhiteSpace (S '' '')" "isSign 0x2D"
      "S ''80'' \<noteq> []" "list_all isDigit (S ''80'')" "\<not> startsWithDigit (S ''abc'')"
      "S ''3'' \<noteq> []" "list_all isDigit (S ''3'')" "\<not> startsWithDigit (S ''.9'')"
      "S ''12'' \<noteq> []" "list_all isDigit (S ''12'')" "\<not> startsWithDigit (S ''px'')"
    by (simp_all add: startsWithDigit_def js_eval)
  have v: "to_number (mathInt (S ''80'')) = Finite 80" "to_number (mathInt (S ''3'')) = Finite 3"
     "to_number ((if (0x2D::jschar) = 0x2D then - 1 else 1) * mathInt (S ''12'')) = Finite (- 12)"
    by (simp_all add: js_eval)
  show ?thesis
    using envNumber_prefix_semantics [of "[]" "S ''80''" "S ''abc''" "Map.empty(S ''PORT'' \<mapsto> S ''80abc'')" "S ''PORT''" "Finite 3000"]
      envNumber_prefix_semantics [of "[]" "S ''3''" "S ''.9''" "Map.empty(S ''PORT'' \<mapsto> S ''3.9'')" "S ''PORT''" "Finite 3000"]
      envNumber_prefix_semantics [of "S '' ''" "S ''12''" "S ''px''" "Map.empty(S ''PORT'' \<mapsto> S '' -12px'')" "S ''PORT''" "Finite 3000" "0x2D"]
      h v
    unfolding e1 [symmetric]
    by simp
qed

subsection \<open>The counter\<close>

lemma to_number_2_53_1: "to_number (2 ^ 53 + 1) = Finite (2 ^ 53)"
  by code_simp

lemma js_add1_small: "0 \<le> c \<Longrightarrow> c < 2 ^ 53 \<Longrightarrow> js_add1 (Finite c) = Finite (c + 1)"
proof -
  assume a: "0 \<le> c" "c < 2 ^ 53"
  show ?thesis
  proof (cases "c + 1 < 2 ^ 53")
    case True
    then have "\<bar>c + 1\<bar> < 2 ^ 53" using a by simp
    then show ?thesis by (simp add: js_add1_def to_number_exact)
  next
    case False
    then have "c + 1 = 2 ^ 53" using a by simp
    moreover have "to_number (2 ^ 53) = Finite (2 ^ 53)" by code_simp
    ultimately show ?thesis by (simp add: js_add1_def)
  qed
qed

lemma js_add1_saturated: "js_add1 (Finite (2 ^ 53)) = Finite (2 ^ 53)"
  using to_number_2_53_1 by (simp add: js_add1_def)

lemma js_add1_min:
  "0 \<le> c \<Longrightarrow> c \<le> 2 ^ 53 \<Longrightarrow> js_add1 (Finite c) = Finite (min (c + 1) (2 ^ 53))"
  using js_add1_small[of c] js_add1_saturated by (cases "c = 2 ^ 53") auto

lemma count_after: "count (AppPage_after es) = Finite (min (int (clicks es)) (2 ^ 53))"
proof (induction es rule: rev_induct)
  case Nil
  show ?case by (simp add: AppPage_after_def AppPage_mount_def clicks_def)
next
  case (snoc e es)
  show ?case
  proof (cases e)
    case ClickIncrement
    have "js_add1 (Finite (min (int (clicks es)) (2 ^ 53))) =
        Finite (min (min (int (clicks es)) (2 ^ 53) + 1) (2 ^ 53))"
      by (rule js_add1_min) simp_all
    then show ?thesis using snoc ClickIncrement
      by (simp add: AppPage_after_def clicks_def min_def)
  next
    case (FetchResolved m)
    then show ?thesis using snoc by (simp add: AppPage_after_def clicks_def)
  next
    case FetchRejected
    then show ?thesis using snoc by (simp add: AppPage_after_def clicks_def)
  qed
qed

lemma clicks_replicate: "clicks (replicate n ClickIncrement) = n"
  by (simp add: clicks_def)

lemma clicks_snoc: "clicks (es @ [e]) = clicks es + (if e = ClickIncrement then 1 else 0)"
  by (simp add: clicks_def)

text \<open>
  Claim C9, as stated, promises the displayed value \<open>n\<close> after \<open>n\<close> clicks for every \<open>n\<close>. The
  counter is a Number: at \<open>2^53\<close> the sum \<open>c + 1\<close> rounds back to \<open>c\<close>, so after \<open>2^53 + 1\<close>
  clicks the page shows \<open>2^53\<close>.
\<close>

theorem counter_counterexample:
  "displayed_counter (AppPage_after (replicate (2 ^ 53 + 1) ClickIncrement)) = Finite (2 ^ 53) \<and>
   displayed_counter (AppPage_after (replicate (2 ^ 53 + 1) ClickIncrement)) \<noteq> Finite (2 ^ 53 + 1)"
  by (simp add: displayed_counter_def count_after clicks_replicate)

text \<open>
  Claim C9, amended. Within one mount the counter starts at 0; whatever else happens to the
  page, after \<open>n\<close> clicks with \<open>n \<le> 2^53\<close> it shows \<open>n\<close>; a click on a value below \<open>2^53\<close> adds
  exactly one; and no event ever lowers the value shown.
\<close>

theorem counter_within_mount:
  "displayed_counter AppPage_mount = Finite 0 \<and>
   (int (clicks es) \<le> 2 ^ 53 \<longrightarrow> displayed_counter (AppPage_after es) = Finite (int (clicks es))) \<and>
   (\<forall>c. displayed_counter (AppPage_after es) = Finite c \<and> c < 2 ^ 53
      \<longrightarrow> displayed_counter (AppPage_after (es @ [ClickIncrement])) = Finite (c + 1)) \<and>
   (\<exists>a b. displayed_counter (AppPage_after es) = Finite a \<and>
          displayed_counter (AppPage_after (es @ [e])) = Finite b \<and> a \<le> b)"
proof -
  have "displayed_counter AppPage_mount = Finite 0"
    by (simp add: displayed_counter_def AppPage_mount_def)
  moreover have "displayed_counter (AppPage_after es) = Finite (int (clicks es))"
    if "int (clicks es) \<le> 2 ^ 53"
    using that by (simp add: displayed_counter_def count_after min_def)
  moreover have "displayed_counter (AppPage_after (es @ [ClickIncrement])) = Finite (c + 1)"
    if "displayed_counter (AppPage_after es) = Finite c" "c < 2 ^ 53" for c
    using that by (simp add: displayed_counter_def count_after clicks_snoc min_def split: if_splits)
  moreover have "min (int (clicks es)) (2 ^ 53) \<le> min (int (clicks (es @ [e]))) (2 ^ 53)"
    by (simp add: clicks_snoc min_def)
  ultimately show ?thesis
    by (simp add: displayed_counter_def count_after)
qed

theorem counter_within_mount_witness:
  "displayed_counter (AppPage_after
      [ClickIncrement, FetchResolved (Some (S ''Server OK'')), ClickIncrement, ClickIncrement])
     = Finite 3 \<and>
   displayed_counter (AppPage_after [ClickIncrement, ClickIncrement]) = Finite 2"
proof -
  have c: "clicks [ClickIncrement, FetchResolved (Some (S ''Server OK'')), ClickIncrement, ClickIncrement] = 3"
    "clicks [ClickIncrement] = 1"
    by (simp_all add: clicks_def)
  have one: "displayed_counter (AppPage_after [ClickIncrement]) = Finite 1"
    using counter_within_mount [of "[ClickIncrement]"] c by simp
  show ?thesis
    using counter_within_mount
        [of "[ClickIncrement, FetchResolved (Some (S ''Server OK'')), ClickIncrement, ClickIncrement]"]
      counter_within_mount [of "[ClickIncrement]"] c one
    by simp
qed

subsection \<open>The calendar and the date-time string\<close>

lemma era_split:
  fixes d1 :: int
  assumes d1: "0 \<le> d1" "d1 < 146097"
    and n100_def: "n100 = min 3 (d1 div 36524)"
    and d2_def: "d2 = d1 - n100 * 36524"
    and n4_def: "n4 = d2 div 1461"
    and d3_def: "d3 = d2 mod 1461"
    and n1_def: "n1 = min 3 (d3 div 365)"
    and doy_def: "doy = d3 - n1 * 365"
  shows "0 \<le> n100 \<and> n100 \<le> 3 \<and> 0 \<le> n4 \<and> n4 \<le> 24 \<and> 0 \<le> n1 \<and> n1 \<le> 3 \<and>
         0 \<le> doy \<and> doy \<le> 365 \<and>
         d1 = 36524 * n100 + 1461 * n4 + 365 * n1 + doy \<and>
         (doy = 365 \<longrightarrow> n1 = 3 \<and> (n4 < 24 \<or> n100 = 3))"
proof -
  have n100: "0 \<le> n100" "n100 \<le> 3" using d1 unfolding n100_def by simp_all
  have d2: "0 \<le> d2" "d2 \<le> 36524" "n100 < 3 \<longrightarrow> d2 < 36524"
    using d1 unfolding d2_def n100_def min_def by (auto split: if_splits)
  have n4: "0 \<le> n4" "n4 \<le> 24" using d2 unfolding n4_def by simp_all
  have d3: "0 \<le> d3" "d3 < 1461" "d2 = 1461 * n4 + d3" unfolding d3_def n4_def by simp_all
  have n1: "0 \<le> n1" "n1 \<le> 3" using d3 unfolding n1_def by simp_all
  have doy: "0 \<le> doy" "doy \<le> 365" "d3 = 365 * n1 + doy" "doy = 365 \<longrightarrow> n1 = 3 \<and> d3 = 1460"
    using d3 unfolding doy_def n1_def min_def by (auto split: if_splits)
  have "d1 = 36524 * n100 + d2" unfolding d2_def by simp
  then have sum: "d1 = 36524 * n100 + 1461 * n4 + 365 * n1 + doy" using d3 doy by simp
  have "doy = 365 \<longrightarrow> n4 < 24 \<or> n100 = 3"
    using doy(4) d3(3) d2 n100 n4 by arith
  then show ?thesis using n100 n4 n1 doy sum by simp
qed

lemma march_year_divs:
  fixes a b c e :: int
  assumes "0 \<le> b" "b \<le> 3" "0 \<le> c" "c \<le> 24" "0 \<le> e" "e \<le> 3"
  defines "y \<equiv> 400 * a + 100 * b + 4 * c + e"
  shows "y div 4 = 100 * a + 25 * b + c" "y div 100 = 4 * a + b" "y div 400 = a"
proof -
  show "y div 4 = 100 * a + 25 * b + c"
    by (rule int_div_pos_eq[where r = e]) (use assms in \<open>simp_all add: y_def\<close>)
  show "y div 100 = 4 * a + b"
    by (rule int_div_pos_eq[where r = "4 * c + e"]) (use assms in \<open>simp_all add: y_def\<close>)
  show "y div 400 = a"
    by (rule int_div_pos_eq[where r = "100 * b + 4 * c + e"]) (use assms in \<open>simp_all add: y_def\<close>)
qed

lemma leap_after_long_year:
  fixes a b c :: int
  assumes "0 \<le> b" "b \<le> 3" "0 \<le> c" "c \<le> 24" "c < 24 \<or> b = 3"
  shows "isLeapYear (400 * a + 100 * b + 4 * c + 3 + 1)"
proof -
  let ?y = "400 * a + 100 * b + 4 * c + 3 + 1"
  have m4: "?y mod 4 = 0"
    by (rule int_mod_pos_eq[where q = "100 * a + 25 * b + c + 1"]) simp_all
  show ?thesis
  proof (cases "c < 24")
    case True
    have "?y mod 100 = 4 * c + 4"
      by (rule int_mod_pos_eq[where q = "4 * a + b"]) (use True assms in simp_all)
    then show ?thesis using m4 assms(3) by (simp add: isLeapYear_def)
  next
    case False
    then have "c = 24" "b = 3" using assms by simp_all
    then have "?y mod 400 = 0"
      by (intro int_mod_pos_eq[where q = "a + 1"]) simp_all
    then show ?thesis using m4 by (simp add: isLeapYear_def)
  qed
qed

lemma month_of_doy:
  fixes doy :: int
  assumes "0 \<le> doy" "doy \<le> 365"
    and mp_def: "mp = (5 * doy + 2) div 153"
    and dd_def: "dd = doy - (153 * mp + 2) div 5 + 1"
  shows "0 \<le> mp \<and> mp \<le> 11 \<and> 1 \<le> dd \<and>
         dd \<le> (if mp = 11 then 29 else if mp = 1 \<or> mp = 3 \<or> mp = 6 \<or> mp = 8 then 30 else 31) \<and>
         (mp = 11 \<and> dd = 29 \<longrightarrow> doy = 365)"
proof -
  have mp: "0 \<le> mp" "mp \<le> 11" using assms(1,2) unfolding mp_def by simp_all
  have lo: "153 * mp \<le> 5 * doy + 2" and hi: "5 * doy + 2 < 153 * mp + 153"
    unfolding mp_def by simp_all
  from mp consider "mp = 0" | "mp = 1" | "mp = 2" | "mp = 3" | "mp = 4" | "mp = 5" | "mp = 6"
    | "mp = 7" | "mp = 8" | "mp = 9" | "mp = 10" | "mp = 11" by atomize_elim arith
  then show ?thesis
  proof cases
    case 1 then show ?thesis using lo hi assms(1,2) unfolding dd_def by simp
  next
    case 2 then show ?thesis using lo hi assms(1,2) unfolding dd_def by simp
  next
    case 3 then show ?thesis using lo hi assms(1,2) unfolding dd_def by simp
  next
    case 4 then show ?thesis using lo hi assms(1,2) unfolding dd_def by simp
  next
    case 5 then show ?thesis using lo hi assms(1,2) unfolding dd_def by simp
  next
    case 6 then show ?thesis using lo hi assms(1,2) unfolding dd_def by simp
  next
    case 7 then show ?thesis using lo hi assms(1,2) unfolding dd_def by simp
  next
    case 8 then show ?thesis using lo hi assms(1,2) unfolding dd_def by simp
  next
    case 9 then show ?thesis using lo hi assms(1,2) unfolding dd_def by simp
  next
    case 10 then show ?thesis using lo hi assms(1,2) unfolding dd_def by simp
  next
    case 11 then show ?thesis using lo hi assms(1,2) unfolding dd_def by simp
  next
    case 12 then show ?thesis using lo hi assms(1,2) unfolding dd_def by simp
  qed
qed

lemma civil_from_days_props:
  assumes c: "civil_from_days d = (y, m, dd)"
  shows "1 \<le> m \<and> m \<le> 12 \<and> 1 \<le> dd \<and> dd \<le> daysInMonth y m \<and> days_from_civil y m dd = d"
proof -
  define z where "z = d + 719468"
  define n400 where "n400 = z div 146097"
  define d1 where "d1 = z mod 146097"
  define n100 where "n100 = min 3 (d1 div 36524)"
  define d2 where "d2 = d1 - n100 * 36524"
  define n4 where "n4 = d2 div 1461"
  define d3 where "d3 = d2 mod 1461"
  define n1 where "n1 = min 3 (d3 div 365)"
  define doy where "doy = d3 - n1 * 365"
  define y0 where "y0 = 400 * n400 + 100 * n100 + 4 * n4 + n1"
  define mp where "mp = (5 * doy + 2) div 153"
  define dd0 where "dd0 = doy - (153 * mp + 2) div 5 + 1"
  define m0 where "m0 = (if mp < 10 then mp + 3 else mp - 9)"
  have "civil_from_days d = (if m0 \<le> 2 then y0 + 1 else y0, m0, dd0)"
    unfolding civil_from_days_def Let_def m0_def dd0_def mp_def y0_def doy_def n1_def d3_def
      n4_def d2_def n100_def d1_def n400_def z_def ..
  with c have y: "y = (if m0 \<le> 2 then y0 + 1 else y0)" and m: "m = m0" and dd: "dd = dd0"
    by auto
  have d1: "0 \<le> d1" "d1 < 146097" unfolding d1_def by simp_all
  have z: "z = 146097 * n400 + d1" unfolding d1_def n400_def by simp
  have E: "0 \<le> n100 \<and> n100 \<le> 3 \<and> 0 \<le> n4 \<and> n4 \<le> 24 \<and> 0 \<le> n1 \<and> n1 \<le> 3 \<and>
         0 \<le> doy \<and> doy \<le> 365 \<and>
         d1 = 36524 * n100 + 1461 * n4 + 365 * n1 + doy \<and>
         (doy = 365 \<longrightarrow> n1 = 3 \<and> (n4 < 24 \<or> n100 = 3))"
    by (rule era_split[OF d1 n100_def d2_def n4_def d3_def n1_def doy_def])
  have M: "0 \<le> mp \<and> mp \<le> 11 \<and> 1 \<le> dd0 \<and>
         dd0 \<le> (if mp = 11 then 29 else if mp = 1 \<or> mp = 3 \<or> mp = 6 \<or> mp = 8 then 30 else 31) \<and>
         (mp = 11 \<and> dd0 = 29 \<longrightarrow> doy = 365)"
    by (rule month_of_doy[OF _ _ mp_def dd0_def]) (use E in simp_all)
  have m_range: "1 \<le> m0" "m0 \<le> 12" using M unfolding m0_def by auto
  have mp_back: "(if 2 < m0 then m0 - 3 else m0 + 9) = mp" using M unfolding m0_def by auto
  have y_back: "(if m0 \<le> 2 then y - 1 else y) = y0" using y by simp
  have divs: "y0 div 4 = 100 * n400 + 25 * n100 + n4" "y0 div 100 = 4 * n400 + n100"
      "y0 div 400 = n400"
    unfolding y0_def using E by (simp_all add: march_year_divs)
  have doy_back: "(153 * mp + 2) div 5 + dd0 - 1 = doy" unfolding dd0_def by simp
  have rt: "days_from_civil y m dd = d"
    unfolding days_from_civil_def Let_def m dd y_back mp_back doy_back divs
    using z E unfolding y0_def z_def by simp
  have dim: "dd0 \<le> daysInMonth y m0"
  proof (cases "mp = 11")
    case True
    then have m2: "m0 = 2" unfolding m0_def by simp
    show ?thesis
    proof (cases "dd0 = 29")
      case True
      with M \<open>mp = 11\<close> have "doy = 365" by simp
      with E have "n1 = 3" "n4 < 24 \<or> n100 = 3" by simp_all
      then have "isLeapYear (400 * n400 + 100 * n100 + 4 * n4 + 3 + 1)"
        using E by (intro leap_after_long_year) simp_all
      then have "isLeapYear y" using y m2 \<open>n1 = 3\<close> unfolding y0_def by simp
      then show ?thesis using m2 True by (simp add: daysInMonth_def)
    next
      case False
      then have "dd0 \<le> 28" using M \<open>mp = 11\<close> by simp
      then show ?thesis using m2 by (simp add: daysInMonth_def)
    qed
  next
    case False
    then have "m0 \<noteq> 2" using M unfolding m0_def by auto
    moreover have "m0 = 4 \<or> m0 = 6 \<or> m0 = 9 \<or> m0 = 11 \<longleftrightarrow> mp = 1 \<or> mp = 3 \<or> mp = 6 \<or> mp = 8"
      using M unfolding m0_def by auto
    ultimately show ?thesis using M False by (simp add: daysInMonth_def)
  qed
  show ?thesis using m_range M dim rt m dd by simp
qed

lemma digitChar_props:
  assumes "0 \<le> v" "v < 10"
  shows "isDigit (digitChar v) \<and> digitValue (digitChar v) = v \<and> \<not> isSign (digitChar v)"
proof -
  from assms consider "v = 0" | "v = 1" | "v = 2" | "v = 3" | "v = 4" | "v = 5" | "v = 6"
    | "v = 7" | "v = 8" | "v = 9" by atomize_elim arith
  then show ?thesis
    by cases (simp_all add: digitChar_def isDigit_def digitValue_def isSign_def)
qed

lemma length_pad: "length (pad n k) = n"
  by (induction n arbitrary: k) simp_all

lemma pad_all_digits: "0 \<le> k \<Longrightarrow> list_all isDigit (pad n k)"
proof (induction n arbitrary: k)
  case 0
  show ?case by simp
next
  case (Suc n)
  have "isDigit (digitChar (k mod 10))" using digitChar_props[of "k mod 10"] by simp
  moreover have "list_all isDigit (pad n (k div 10))" using Suc by simp
  ultimately show ?case by simp
qed

lemma mathInt_snoc: "mathInt (xs @ [c]) = 10 * mathInt xs + digitValue c"
  by (simp add: mathInt_def)

lemma mathInt_pad: "0 \<le> k \<Longrightarrow> k < 10 ^ n \<Longrightarrow> mathInt (pad n k) = k"
proof (induction n arbitrary: k)
  case 0
  then show ?case by (simp add: mathInt_def)
next
  case (Suc n)
  have "k div 10 < 10 ^ n" using Suc.prems by simp
  then have "mathInt (pad n (k div 10)) = k div 10" using Suc by simp
  moreover have "digitValue (digitChar (k mod 10)) = k mod 10"
    using digitChar_props[of "k mod 10"] by simp
  ultimately show ?case by (simp add: mathInt_snoc)
qed

lemma digits_pad: "0 < n \<Longrightarrow> 0 \<le> k \<Longrightarrow> k < 10 ^ n \<Longrightarrow> digits (pad n k) = Some k"
  using length_pad[of n k] by (auto simp: digits_def pad_all_digits mathInt_pad)

lemma field_pad:
  assumes "0 < n" "0 \<le> k" "k < 10 ^ n"
  shows "field sep n (sep # pad n k @ rest) = Some (k, rest)"
  using digits_pad[OF assms] by (simp add: field_def length_pad)

lemma hd_pad_digit: "0 < n \<Longrightarrow> 0 \<le> k \<Longrightarrow> isDigit (hd (pad n k @ rest))"
proof -
  assume a: "0 < n" "0 \<le> k"
  then have ne: "pad n k \<noteq> []" using length_pad[of n k] by auto
  then have "hd (pad n k @ rest) \<in> set (pad n k)" by simp
  then show ?thesis using pad_all_digits[OF a(2), of n] by (simp add: list_all_iff)
qed

lemma parseYear_yearString:
  assumes "\<bar>y\<bar> < 10 ^ 6"
  shows "parseYear (yearString y @ rest) = Some (y, rest)"
proof (cases "0 \<le> y \<and> y \<le> 9999")
  case True
  then have d: "digits (pad 4 y) = Some y" by (intro digits_pad) simp_all
  have "\<not> isSign (hd (pad 4 y @ rest))"
    using hd_pad_digit[of 4 y rest] True isSign_not_digit by auto
  moreover have "pad 4 y @ rest \<noteq> []" using length_pad[of 4 y] by auto
  ultimately show ?thesis using True d
    by (simp add: parseYear_def yearString_def length_pad del: pad.simps)
next
  case False
  have d: "digits (pad 6 \<bar>y\<bar>) = Some \<bar>y\<bar>" using assms by (intro digits_pad) simp_all
  have nz: "\<bar>y\<bar> \<noteq> 0" using False by auto
  show ?thesis
  proof (cases "y < 0")
    case True
    then show ?thesis using False d nz
      by (simp add: parseYear_def yearString_def length_pad S_def isSign_def del: pad.simps)
  next
    case False
    then show ?thesis using \<open>\<not> (0 \<le> y \<and> y \<le> 9999)\<close> d nz
      by (simp add: parseYear_def yearString_def length_pad S_def isSign_def del: pad.simps)
  qed
qed

lemma time_within_day:
  fixes ms :: int
  assumes "0 \<le> ms" "ms < 86400000"
  shows "0 \<le> ms div 3600000 \<and> ms div 3600000 \<le> 23 \<and>
         ms div 3600000 * 3600000 + ms div 60000 mod 60 * 60000 + ms div 1000 mod 60 * 1000 +
           ms mod 1000 = ms"
proof -
  define a where "a = ms div 1000"
  define b where "b = a div 60"
  have ms: "ms = 1000 * a + ms mod 1000" unfolding a_def by simp
  have a: "a = 60 * b + a mod 60" unfolding b_def by simp
  have b: "b = 60 * (b div 60) + b mod 60" by simp
  have "ms div 60000 = ms div (1000 * 60)" by simp
  also have "\<dots> = b" unfolding b_def a_def by (rule zdiv_zmult2_eq) simp
  finally have m: "ms div 60000 = b" .
  have "ms div 3600000 = ms div (60000 * 60)" by simp
  also have "\<dots> = ms div 60000 div 60" by (rule zdiv_zmult2_eq) simp
  finally have h: "ms div 3600000 = b div 60" using m by simp
  have r: "0 \<le> ms div 3600000" "ms div 3600000 \<le> 23" using assms by simp_all
  show ?thesis unfolding h m a_def[symmetric] using r ms a b unfolding h by linarith
qed

lemma year_bound:
  assumes "\<bar>days_from_civil y m d\<bar> \<le> 100000000" "1 \<le> m" "m \<le> 12" "1 \<le> d" "d \<le> 31"
  shows "\<bar>y\<bar> < 10 ^ 6"
proof -
  define y' where "y' = (if m \<le> 2 then y - 1 else y)"
  define mp where "mp = (if 2 < m then m - 3 else m + 9)"
  have mp: "0 \<le> mp" "mp \<le> 11" using assms unfolding mp_def by auto
  define s where "s = (153 * mp + 2) div 5"
  have s: "0 \<le> s" "s \<le> 337" using mp unfolding s_def by simp_all
  define a where "a = y' div 4"
  define b where "b = y' div 100"
  define c where "c = y' div 400"
  have "days_from_civil y m d = 365 * y' + a - b + c + (s + d - 1) - 719468"
    unfolding days_from_civil_def Let_def y'_def mp_def s_def a_def b_def c_def by simp
  with assms(1) have D: "365 * y' + a - b + c + (s + d - 1) - 719468 \<le> 100000000"
    "- 100000000 \<le> 365 * y' + a - b + c + (s + d - 1) - 719468"
    by simp_all
  have q4: "4 * a \<le> y'" "y' < 4 * a + 4" unfolding a_def by simp_all
  have q100: "100 * b \<le> y'" "y' < 100 * b + 100" unfolding b_def by simp_all
  have q400: "400 * c \<le> y'" "y' < 400 * c + 400" unfolding c_def by simp_all
  have "y' < 999990" using D(1) s assms(4,5) q4 q100 q400 by linarith
  moreover have "- 999990 < y'" using D(2) s assms(4,5) q4 q100 q400 by linarith
  ultimately show ?thesis unfolding y'_def by (simp split: if_splits)
qed

lemma daysInMonth_le_31: "daysInMonth y m \<le> 31"
  by (simp add: daysInMonth_def)

lemma Day_bound: "valid_time t \<Longrightarrow> \<bar>Day t\<bar> \<le> 100000000"
  unfolding valid_time_def Day_def msPerDay_def by arith

text \<open>The string that \<open>toISOString\<close> gives for a time value parses back to that value.\<close>

lemma Date_parse_toISOString:
  assumes v: "valid_time t"
  shows "Date_parse (toISOString t) = Some t"
proof -
  obtain y m d where c: "civil_from_days (Day t) = (y, m, d)"
    by (cases "civil_from_days (Day t)") auto
  have P: "1 \<le> m \<and> m \<le> 12 \<and> 1 \<le> d \<and> d \<le> daysInMonth y m \<and> days_from_civil y m d = Day t"
    by (rule civil_from_days_props[OF c])
  then have d31: "d \<le> 31" using daysInMonth_le_31[of y m] by linarith
  have yb: "\<bar>y\<bar> < 10 ^ 6"
    by (rule year_bound[of y m d]) (use P d31 Day_bound[OF v] in simp_all)
  define ms where "ms = TimeWithinDay t"
  have ms: "0 \<le> ms" "ms < 86400000" unfolding ms_def TimeWithinDay_def msPerDay_def by simp_all
  define hh where "hh = ms div 3600000"
  define mi where "mi = ms div 60000 mod 60"
  define ss where "ss = ms div 1000 mod 60"
  define ml where "ml = ms mod 1000"
  have T: "0 \<le> hh \<and> hh \<le> 23 \<and> hh * 3600000 + mi * 60000 + ss * 1000 + ml = ms"
    unfolding hh_def mi_def ss_def ml_def by (rule time_within_day[OF ms])
  have r: "0 \<le> mi" "mi \<le> 59" "0 \<le> ss" "ss \<le> 59" "0 \<le> ml" "ml < 1000"
    unfolding mi_def ss_def ml_def by simp_all
  have str: "toISOString t =
      yearString y @ (0x2D # pad 2 m @ (0x2D # pad 2 d @ (0x54 # pad 2 hh @ (0x3A # pad 2 mi @
        (0x3A # pad 2 ss @ (0x2E # pad 3 ml @ S ''Z''))))))"
    unfolding toISOString_def Let_def c ms_def[symmetric] hh_def mi_def ss_def ml_def
    by (simp add: S_def del: pad.simps)
  have f: "field 0x2D 2 (0x2D # pad 2 m @ r1) = Some (m, r1)"
      "field 0x2D 2 (0x2D # pad 2 d @ r2) = Some (d, r2)"
      "field 0x54 2 (0x54 # pad 2 hh @ r3) = Some (hh, r3)"
      "field 0x3A 2 (0x3A # pad 2 mi @ r4) = Some (mi, r4)"
      "field 0x3A 2 (0x3A # pad 2 ss @ r5) = Some (ss, r5)"
      "field 0x2E 3 (0x2E # pad 3 ml @ r6) = Some (ml, r6)" for r1 r2 r3 r4 r5 r6
    using P d31 T r by (intro field_pad; simp)+
  have t: "t = Day t * msPerDay + ms"
    unfolding Day_def ms_def TimeWithinDay_def by simp
  have tv: "days_from_civil y m d * msPerDay + hh * 3600000 + mi * 60000 + ss * 1000 + ml = t"
    using P T t by simp
  show ?thesis
    unfolding Date_parse_def str parseYear_yearString[OF yb]
    using P T r v tv by (simp add: f del: pad.simps)
qed

lemma toISOString_examples:
  "toISOString 0 = S ''1970-01-01T00:00:00.000Z''"
  "toISOString 951868799999 = S ''2000-02-29T23:59:59.999Z''"
  "toISOString (- 1) = S ''1969-12-31T23:59:59.999Z''"
  "toISOString 8640000000000000 = S ''+275760-09-13T00:00:00.000Z''"
  by code_simp+

subsection \<open>The request pipeline\<close>

lemma run_stage_logger: "run_stage L RequestLogger req p = (Next, logged req p)"
  by (simp add: run_stage_def logged_def requestLogger_def new_Date_def Let_def)

lemma run_stage_other: "s \<noteq> RequestLogger \<Longrightarrow> run_stage L s req p = (middleware L s req, p)"
  by (simp add: run_stage_def)

lemma middleware_passed:
  assumes "passes L req"
  shows "app_handle L p req =
     run_stack L req [AppRoute (Route GET (S ''/health'') HealthHandler),
                      Mount (S ''/api/health'') healthRouter]
       (map Ran pipeline_order) [] (logged req p)"
  using assms
  by (simp add: app_handle_def createApp_def passes_def pipeline_order_def run_stage_logger
      run_stage_other)

lemma stages_run_append: "stages_run (xs @ ys) = stages_run xs @ stages_run ys"
  by (induction xs rule: stages_run.induct) simp_all

lemma routes_run_no_stage:
  "list_all is_route_layer rs \<Longrightarrow>
   stages_run (steps (run_stack L req rs tr allow p)) = stages_run tr"
proof (induction rs arbitrary: allow)
  case Nil
  show ?case by (simp add: stages_run_append)
next
  case (Cons r rs)
  then have ih: "\<And>allow. stages_run (steps (run_stack L req rs tr allow p)) = stages_run tr"
    by simp
  show ?case
  proof (cases r)
    case (Use s)
    then show ?thesis using Cons.prems by simp
  next
    case (AppRoute x)
    then show ?thesis using ih
      by (simp add: stages_run_append split: sum.splits prod.splits)
  next
    case (Mount pat inner)
    then show ?thesis using ih
      by (simp add: stages_run_append split: option.splits sum.splits prod.splits)
  qed
qed


lemma createApp_shape:
  "createApp = map Use pipeline_order @
     [AppRoute (Route GET (S ''/health'') HealthHandler), Mount (S ''/api/health'') healthRouter]"
  by (simp add: createApp_def pipeline_order_def)


lemma stages_run_all:
  "passes L req \<Longrightarrow> stages_run (steps (app_handle L p req)) = pipeline_order"
  using routes_run_no_stage[of "[AppRoute (Route GET (S ''/health'') HealthHandler),
      Mount (S ''/api/health'') healthRouter]" L req "map Ran pipeline_order" "[]" "logged req p"]
  by (simp add: middleware_passed) (simp add: pipeline_order_def)

lemma logged_fields:
  "clock (logged req p) = clock p" "reads (logged req p) = Suc (reads p)"
  "uptime_ns (logged req p) = uptime_ns p"
  by (simp_all add: logged_def requestLogger_def new_Date_def console_info_def Let_def)




lemma example_paths:
  "pathname L (example_request m ''/health'') = S ''/health''"
  "pathname L (example_request m ''/health?probe=1'') = S ''/health''"
  "pathname L (example_request m ''/api/health'') = S ''/api/health''"
  "pathname L (example_request m ''/does-not-exist'') = S ''/does-not-exist''"
  "pathname L (example_request m ''/api/health/extra'') = S ''/api/health/extra''"
  "pathname L (example_request m ''/unknown-route'') = S ''/unknown-route''"
  "pathname L (conditional_request m ''/health'' tag) = S ''/health''"
  by (simp_all add: pathname_def fastparse_def needs_url_parse_def example_request_def
      conditional_request_def S_def)

lemma example_methods:
  "req_method (example_request m url) = m" "req_method (conditional_request m url tag) = m"
  "req_headers (example_request m url) = Map.empty"
  "req_headers (conditional_request m url tag) = [S ''if-none-match'' \<mapsto> S tag]"
  by (simp_all add: example_request_def conditional_request_def)

lemma example_process_ok: "clock_ok example_process"
  by (simp add: clock_ok_def example_process_def valid_time_def)

lemma example_passes: "passes all_pass req"
  by (simp add: passes_def all_pass_def)

lemma unconditional_stale:
  assumes "\<not> truthy (hs (S ''if-none-match''))"
  shows "\<not> fresh v hs tag"
  using assms by (cases v) (simp_all add: fresh_def Let_def)

lemma star_fresh:
  assumes "hs (S ''if-none-match'') = Some (S ''*'')" "\<not> truthy (hs (S ''if-modified-since''))"
    "\<not> truthy (hs (S ''cache-control''))"
  shows "fresh v hs tag"
proof -
  have "truthy (Some (S ''*''))" by (simp add: truthy_def S_def)
  then show ?thesis using assms by (cases v) (simp_all add: fresh_def Let_def)
qed

lemma example_clock_string: "toISOString 1762041600000 = S ''2025-11-02T00:00:00.000Z''"
  by code_simp

lemma health_route_runs:
  assumes "passes L req" "match_route (S ''/health'') (pathname L req)"
    "req_method req = GET \<or> req_method req = HEAD"
  shows "app_handle L p req =
     (let (resp, p') = healthHandler L req (logged req p)
      in \<lparr> reply = resp, steps = map Ran pipeline_order @ [Routed HealthHandler], after = p' \<rparr>)"
  using assms(2,3) unfolding middleware_passed[OF assms(1)]
  by (auto simp: handles_def)

lemma health_reply:
  assumes "passes L req" "pathname L req = S ''/health''" "req_method req = GET"
  shows "reply (app_handle L p req) =
     res_json L req HealthHandler (health_body (clock p (Suc (reads p))) (process_uptime p))"
proof -
  have m: "match_route (S ''/health'') (pathname L req)" using assms(2) by (simp add: match_route_def)
  have "app_handle L p req =
     (let (resp, p') = healthHandler L req (logged req p)
      in \<lparr> reply = resp, steps = map Ran pipeline_order @ [Routed HealthHandler], after = p' \<rparr>)"
    by (rule health_route_runs[OF assms(1) m]) (simp add: assms(3))
  then show ?thesis
    by (simp add: healthHandler_def new_Date_def logged_fields process_uptime_def health_body_def)
qed

text \<open>
  Claim C3, as stated, promises status 200 and the JSON body for every \<open>GET\<close> request to
  \<open>/health\<close>. A conditional request with \<open>If-None-Match: *\<close>, which every middleware passes
  on, is answered by the handler's \<open>res.json\<close> with status 304 and no body.
\<close>

theorem health_conditional_counterexample:
  "passes all_pass (conditional_request GET ''/health'' ''*'') \<and>
   pathname all_pass (conditional_request GET ''/health'' ''*'') = S ''/health'' \<and>
   sent_by (reply (app_handle all_pass example_process (conditional_request GET ''/health'' ''*''))) =
     ByHandler HealthHandler \<and>
   status (reply (app_handle all_pass example_process (conditional_request GET ''/health'' ''*''))) = 304 \<and>
   body (reply (app_handle all_pass example_process (conditional_request GET ''/health'' ''*''))) = NoBody"
proof -
  have "fresh v [S ''if-none-match'' \<mapsto> S ''*''] tag" for v tag
    by (rule star_fresh) (simp_all add: truthy_def S_def)
  then show ?thesis
    unfolding health_reply[OF example_passes example_paths(7) example_methods(2)]
    by (simp add: example_passes example_paths res_json_def req_fresh_def example_methods)
qed

text \<open>
  Claim C3, amended. A \<open>GET\<close> request for the path \<open>/health\<close> that the middleware pass on is
  answered by the handler of the route that \<open>createApp\<close> registers on the application itself,
  at \<open>/health\<close>, not under \<open>/api\<close>. Unless the request is a conditional request that Express
  finds fresh, the status is 200 and the body is the JSON of \<open>status: "ok"\<close>, \<open>timestamp\<close>:
  the ISO string of the clock reading, which parses back to that reading, and \<open>uptime\<close>: the
  process uptime in seconds, which is not negative. A fresh conditional request gets status
  304 and no body. A request without an \<open>If-None-Match\<close> header is never fresh, whatever the
  entity tag of the body and the version of Express.
\<close>

theorem health_endpoint:
  assumes "passes L req" and "clock_ok p" and "req_method req = GET"
    and "pathname L req = S ''/health''"
  shows "\<exists>t. Date_parse (toISOString t) = Some t \<and> 0 \<le> process_uptime p \<and>
           sent_by (reply (app_handle L p req)) = ByHandler HealthHandler \<and>
           (if req_fresh L req (etag L (health_body t (process_uptime p)))
            then status (reply (app_handle L p req)) = 304 \<and>
                 body (reply (app_handle L p req)) = NoBody
            else status (reply (app_handle L p req)) = 200 \<and>
                 body (reply (app_handle L p req)) =
                   JsonBody (JObject [(S ''status'', JString (S ''ok'')),
                                      (S ''timestamp'', JString (toISOString t)),
                                      (S ''uptime'', JNumber (process_uptime p))])) \<and>
           (\<not> truthy (req_headers req (S ''if-none-match'')) \<longrightarrow>
              \<not> req_fresh L req (etag L (health_body t (process_uptime p)))) \<and>
           AppRoute (Route GET (S ''/health'') HealthHandler) \<in> set createApp"
proof -
  let ?t = "clock p (Suc (reads p))"
  have v: "valid_time ?t" using assms(2) by (simp add: clock_ok_def)
  have r: "reply (app_handle L p req) =
      res_json L req HealthHandler (health_body ?t (process_uptime p))"
    by (rule health_reply[OF assms(1,4,3)])
  have u: "0 \<le> process_uptime p" by (simp add: process_uptime_def)
  have s: "\<not> req_fresh L req tag" if "\<not> truthy (req_headers req (S ''if-none-match''))" for tag
    using unconditional_stale[where hs = "req_headers req", OF that] by (simp add: req_fresh_def)
  have c: "AppRoute (Route GET (S ''/health'') HealthHandler) \<in> set createApp"
    by (simp add: createApp_def)
  show ?thesis
    apply (rule exI[of _ ?t])
    using Date_parse_toISOString[OF v] u s c assms(3)
    by (simp add: r res_json_def health_body_def)
qed

theorem health_endpoint_witness:
  "status (reply (app_handle all_pass example_process (example_request GET ''/health''))) = 200 \<and>
   sent_by (reply (app_handle all_pass example_process (example_request GET ''/health''))) =
     ByHandler HealthHandler \<and>
   status (reply (app_handle all_pass example_process (example_request GET ''/health?probe=1''))) = 200 \<and>
   body (reply (app_handle all_pass example_process (example_request GET ''/health''))) =
     JsonBody (JObject [(S ''status'', JString (S ''ok'')),
                        (S ''timestamp'', JString (S ''2025-11-02T00:00:00.000Z'')),
                        (S ''uptime'', JNumber (3 / 2))])"
proof -
  have f: "\<not> truthy (req_headers (example_request GET url) (S ''if-none-match''))" for url
    by (simp add: example_methods truthy_def)
  have c: "clock example_process n = 1762041600000" for n by (simp add: example_process_def)
  have u: "process_uptime example_process = 3 / 2"
    by (simp add: process_uptime_def example_process_def)
  from health_endpoint[OF example_passes example_process_ok example_methods(1) example_paths(1)]
  obtain t where t: "Date_parse (toISOString t) = Some t"
    "sent_by (reply (app_handle all_pass example_process (example_request GET ''/health''))) =
       ByHandler HealthHandler"
    "status (reply (app_handle all_pass example_process (example_request GET ''/health''))) = 200"
    using f by (auto split: if_splits)
  from health_endpoint[OF example_passes example_process_ok example_methods(1) example_paths(2)]
  have q: "status (reply (app_handle all_pass example_process (example_request GET ''/health?probe=1''))) = 200"
    using f by (auto split: if_splits)
  have b: "body (reply (app_handle all_pass example_process (example_request GET ''/health''))) =
     JsonBody (JObject [(S ''status'', JString (S ''ok'')),
                        (S ''timestamp'', JString (S ''2025-11-02T00:00:00.000Z'')),
                        (S ''uptime'', JNumber (3 / 2))])"
    unfolding health_reply[OF example_passes example_paths(1) example_methods(1)]
    using unconditional_stale[where hs = "req_headers (example_request GET ''/health'')", OF f]
    by (simp add: res_json_def req_fresh_def health_body_def c u example_clock_string example_methods)
  show ?thesis using t q b by simp
qed




lemma run_router_miss:
  "\<not> list_ex (route_answers req path) rs \<Longrightarrow>
   \<exists>allow'. run_router req path rs allow = Inr allow' \<and>
     (req_method req = OPTIONS \<longrightarrow> allow' = allow)"
proof (induction rs arbitrary: allow)
  case Nil
  show ?case by simp
next
  case (Cons r rs)
  obtain m pat h where r: "r = Route m pat h" by (cases r) auto
  show ?case using Cons r by auto
qed

lemma routes_miss:
  assumes "\<not> list_ex (layer_answers L req) rs" "list_all is_route_layer rs"
    "req_method req = OPTIONS \<longrightarrow> allow = []"
  shows "run_stack L req rs tr allow p =
     \<lparr> reply = finalhandler 404, steps = tr @ [FinalHandler], after = p \<rparr>"
  using assms
proof (induction rs)
  case Nil
  then show ?case by auto
next
  case (Cons r rs)
  then have ih: "run_stack L req rs tr allow p =
     \<lparr> reply = finalhandler 404, steps = tr @ [FinalHandler], after = p \<rparr>" by simp
  show ?case
  proof (cases r)
    case (Use s)
    then show ?thesis using Cons.prems by simp
  next
    case (AppRoute x)
    then have "\<not> list_ex (route_answers req (pathname L req)) [x]" using Cons.prems by simp
    from run_router_miss[OF this, of allow] obtain allow' where
      "run_router req (pathname L req) [x] allow = Inr allow'"
      "req_method req = OPTIONS \<longrightarrow> allow' = allow" by blast
    moreover have "allow' = allow"
      using calculation by (cases x) (auto split: if_splits)
    ultimately show ?thesis using AppRoute ih by simp
  next
    case (Mount pat inner)
    show ?thesis
    proof (cases "match_mount pat (pathname L req)")
      case None
      then show ?thesis using Mount ih by simp
    next
      case (Some path)
      then have "\<not> list_ex (route_answers req path) inner" using Cons.prems Mount by simp
      from run_router_miss[OF this, of "[]"] obtain allow' where
        "run_router req path inner [] = Inr allow'" "req_method req = OPTIONS \<longrightarrow> allow' = []"
        by blast
      then show ?thesis using Mount Some ih by auto
    qed
  qed
qed

lemma stack_unmatched_origin:
  assumes "\<not> list_ex (layer_answers L req) rs" and "list_all is_route_layer rs"
  shows "sent_by (reply (run_stack L req (map Use ss @ rs) tr [] p)) = ByFinalHandler \<or>
         (\<exists>s. s \<in> set ss \<and> sent_by (reply (run_stack L req (map Use ss @ rs) tr [] p)) = ByStage s)"
proof (induction ss arbitrary: tr p)
  case Nil
  show ?case using routes_miss[OF assms, of "[]" tr p] by (simp add: finalhandler_def)
next
  case (Cons s ss)
  obtain out p' where r: "run_stage L s req p = (out, p')" by (cases "run_stage L s req p") auto
  show ?case
  proof (cases out)
    case Next
    then show ?thesis using r Cons[of "tr @ [Ran s]" p'] by auto
  next
    case (End code)
    then show ?thesis using r by simp
  next
    case (Fail code)
    then show ?thesis using r by (simp add: finalhandler_def)
  qed
qed

lemma unmatched_never_routed:
  assumes "\<not> matches_registered_route L req"
  shows "sent_by (reply (app_handle L p req)) = ByFinalHandler \<or>
         (\<exists>s. sent_by (reply (app_handle L p req)) = ByStage s)"
proof -
  have "\<not> list_ex (layer_answers L req)
      [AppRoute (Route GET (S ''/health'') HealthHandler), Mount (S ''/api/health'') healthRouter]"
    using assms by (simp add: matches_registered_route_def createApp_def)
  from stack_unmatched_origin[OF this, of pipeline_order "[]" p]
  show ?thesis unfolding app_handle_def createApp_shape by auto
qed

lemma unmatched_passed_404:
  assumes p: "passes L req" and n: "\<not> matches_registered_route L req"
  shows "reply (app_handle L p0 req) = finalhandler 404"
proof -
  have "\<not> list_ex (layer_answers L req)
      [AppRoute (Route GET (S ''/health'') HealthHandler), Mount (S ''/api/health'') healthRouter]"
    using n by (simp add: matches_registered_route_def createApp_def)
  then have "app_handle L p0 req =
      \<lparr> reply = finalhandler 404, steps = map Ran pipeline_order @ [FinalHandler],
        after = logged req p0 \<rparr>"
    unfolding middleware_passed[OF p] by (intro routes_miss) simp_all
  then show ?thesis by simp
qed

lemma health_not_api:
  assumes "match_route (S ''/health'') path"
  shows "match_mount (S ''/api/health'') path = None"
proof -
  from assms have "length (map lower path) \<le> 8"
    by (auto simp: match_route_def S_def)
  then have len: "length path \<le> 8" by simp
  have "length (S ''/api/health'') = 11" by (simp add: S_def)
  then have "length (take (length (S ''/api/health'')) path) \<noteq> length (S ''/api/health'')"
    using len by simp
  then have "map lower (take (length (S ''/api/health'')) path) \<noteq> map lower (S ''/api/health'')"
    by (metis length_map)
  then show ?thesis by (simp add: match_mount_def Let_def)
qed

lemma matched_request_routed:
  assumes p: "passes L req" and m: "matches_registered_route L req"
  shows "sent_by (reply (app_handle L p0 req)) = ByHandler HealthHandler \<or>
         sent_by (reply (app_handle L p0 req)) = ByHandler ApiHealthHandler \<or>
         sent_by (reply (app_handle L p0 req)) = ByRouterOptions"
proof -
  let ?path = "pathname L req"
  from m have c: "(match_route (S ''/health'') ?path \<and>
        (handles GET (req_method req) \<or> req_method req = OPTIONS)) \<or>
      (\<exists>inner. match_mount (S ''/api/health'') ?path = Some inner \<and>
         match_route (S ''/'') inner \<and> (handles GET (req_method req) \<or> req_method req = OPTIONS))"
    by (auto simp: matches_registered_route_def createApp_def healthRouter_def split: option.splits)
  show ?thesis
  proof (cases "match_route (S ''/health'') ?path")
    case True
    note api = health_not_api[OF True]
    show ?thesis
    proof (cases "handles GET (req_method req)")
      case h: True
      then show ?thesis using True unfolding middleware_passed[OF p]
        by (simp add: healthHandler_def new_Date_def res_json_def Let_def)
    next
      case h: False
      then have "req_method req = OPTIONS" using c True api by auto
      then show ?thesis using True h api unfolding middleware_passed[OF p]
        by (simp add: options_response_def)
    qed
  next
    case False
    then obtain inner where i: "match_mount (S ''/api/health'') ?path = Some inner"
      "match_route (S ''/'') inner" "handles GET (req_method req) \<or> req_method req = OPTIONS"
      using c by auto
    show ?thesis
    proof (cases "handles GET (req_method req)")
      case h: True
      then show ?thesis using False i unfolding middleware_passed[OF p]
        by (simp add: healthRouter_def apiHealthHandler_def new_Date_def)
    next
      case h: False
      then have "req_method req = OPTIONS" using i by auto
      then show ?thesis using False h i unfolding middleware_passed[OF p]
        by (simp add: healthRouter_def options_response_def)
    qed
  qed
qed

lemma lower_slash: "lower c = 0x2F \<longleftrightarrow> c = 0x2F"
proof
  assume l: "lower c = 0x2F"
  show "c = 0x2F"
  proof (rule ccontr)
    assume n: "c \<noteq> 0x2F"
    then have u: "0x41 \<le> c" "c + 0x20 = 0x2F" using l by (auto simp: lower_def split: if_splits)
    from u(2) have "c = 0x2F - 0x20" by (metis add_diff_cancel_right')
    then show False using u(1) by simp
  qed
next
  assume "c = 0x2F"
  then show "lower c = 0x2F" by (simp add: lower_def)
qed

lemma lower_slashes:
  "map lower xs = S ''/'' \<longleftrightarrow> xs = S ''/''"
  "map lower xs = S ''//'' \<longleftrightarrow> xs = S ''//''"
  by (auto simp: S_def map_eq_Cons_conv lower_slash)

lemma health_route_paths:
  "match_route (S ''/health'') path \<longleftrightarrow>
     map lower path = S ''/health'' \<or> map lower path = S ''/health/''"
  by (simp add: match_route_def S_def lower_def)

lemma api_mount_paths:
  "(\<exists>inner. match_mount (S ''/api/health'') path = Some inner \<and> match_route (S ''/'') inner) \<longleftrightarrow>
     map lower path = S ''/api/health'' \<or> map lower path = S ''/api/health/'' \<or>
     map lower path = S ''/api/health//''"
proof -
  define pre where "pre = take 11 path"
  define rest where "rest = drop 11 path"
  have split: "map lower path = map lower pre @ map lower rest"
    unfolding pre_def rest_def by (metis append_take_drop_id map_append)
  have pat: "map lower (S ''/api/health'') = S ''/api/health''" "length (S ''/api/health'') = 11"
    by (simp_all add: S_def lower_def)
  have root: "match_route (S ''/'') inner \<longleftrightarrow> inner = S ''/'' \<or> inner = S ''//''" for inner
    using lower_slashes[of inner] by (auto simp: match_route_def S_def lower_def)
  have mm: "match_mount (S ''/api/health'') path =
      (if map lower pre = S ''/api/health'' \<and> (rest = [] \<or> hd rest = 0x2F)
       then Some (if rest = [] \<or> rest = S ''/'' then S ''/'' else rest) else None)"
    by (simp add: match_mount_def Let_def pat pre_def rest_def)
  have lhs: "(\<exists>inner. match_mount (S ''/api/health'') path = Some inner \<and> match_route (S ''/'') inner) \<longleftrightarrow>
      map lower pre = S ''/api/health'' \<and> (rest = [] \<or> rest = S ''/'' \<or> rest = S ''//'')"
    unfolding mm root by (auto simp: S_def)
  have len: "length (map lower pre) = 11 \<or> rest = []"
    unfolding pre_def rest_def by (cases "11 \<le> length path") simp_all
  have short: "length (map lower pre) < 11 \<Longrightarrow> map lower pre \<noteq> S ''/api/health''"
    by (auto simp: S_def)
  have rhs: "map lower path = S ''/api/health'' @ tail \<longleftrightarrow>
      map lower pre = S ''/api/health'' \<and> map lower rest = tail" for tail
  proof (cases "length (map lower pre) = 11")
    case True
    then show ?thesis unfolding split using pat(2) by (simp add: append_eq_append_conv)
  next
    case False
    then have r: "rest = []" using len by blast
    then have "length (map lower path) < 11" using False split
      by (simp add: pre_def)
    then have "map lower path \<noteq> S ''/api/health'' @ tail" by (auto simp: S_def)
    moreover have "map lower pre \<noteq> S ''/api/health''" using False by (auto simp: S_def)
    ultimately show ?thesis by simp
  qed
  have "map lower path = S ''/api/health'' \<longleftrightarrow> map lower pre = S ''/api/health'' \<and> rest = []"
    using rhs[of "[]"] by simp
  moreover have "map lower path = S ''/api/health/'' \<longleftrightarrow>
      map lower pre = S ''/api/health'' \<and> rest = S ''/''"
    using rhs[of "S ''/''"] lower_slashes(1)[of rest] by (simp add: S_def)
  moreover have "map lower path = S ''/api/health//'' \<longleftrightarrow>
      map lower pre = S ''/api/health'' \<and> rest = S ''//''"
    using rhs[of "S ''//''"] lower_slashes(2)[of rest] by (simp add: S_def)
  ultimately show ?thesis unfolding lhs by blast
qed

lemma matched_iff_routed: "matches_registered_route L req \<longleftrightarrow> routed L req"
proof -
  have m: "handles GET (req_method req) \<or> req_method req = OPTIONS \<longleftrightarrow>
      req_method req = GET \<or> req_method req = HEAD \<or> req_method req = OPTIONS"
    by (auto simp: handles_def)
  have "matches_registered_route L req \<longleftrightarrow>
      (handles GET (req_method req) \<or> req_method req = OPTIONS) \<and>
      (match_route (S ''/health'') (pathname L req) \<or>
       (\<exists>inner. match_mount (S ''/api/health'') (pathname L req) = Some inner \<and>
          match_route (S ''/'') inner))"
    by (auto simp: matches_registered_route_def createApp_def healthRouter_def split: option.splits)
  then show ?thesis
    unfolding m health_route_paths api_mount_paths routed_def routed_paths_def by auto
qed

lemma routed_status:
  assumes "sent_by (reply (app_handle L p req)) = ByHandler HealthHandler \<or>
           sent_by (reply (app_handle L p req)) = ByHandler ApiHealthHandler \<or>
           sent_by (reply (app_handle L p req)) = ByRouterOptions"
    and "passes L req"
  shows "status (reply (app_handle L p req)) = 200 \<or> status (reply (app_handle L p req)) = 304"
proof (cases "matches_registered_route L req")
  case False
  then show ?thesis using unmatched_passed_404[OF assms(2) False, of p] assms(1)
    by (simp add: finalhandler_def)
next
  case True
  let ?path = "pathname L req"
  from True have c: "(match_route (S ''/health'') ?path \<and>
        (handles GET (req_method req) \<or> req_method req = OPTIONS)) \<or>
      (\<exists>inner. match_mount (S ''/api/health'') ?path = Some inner \<and>
         match_route (S ''/'') inner \<and> (handles GET (req_method req) \<or> req_method req = OPTIONS))"
    by (auto simp: matches_registered_route_def createApp_def healthRouter_def split: option.splits)
  show ?thesis
  proof (cases "match_route (S ''/health'') ?path")
    case m: True
    note api = health_not_api[OF m]
    show ?thesis
    proof (cases "handles GET (req_method req)")
      case h: True
      then show ?thesis using m unfolding middleware_passed[OF assms(2)]
        by (simp add: healthHandler_def new_Date_def res_json_def Let_def)
    next
      case h: False
      then have "req_method req = OPTIONS" using c m api by auto
      then show ?thesis using m h api unfolding middleware_passed[OF assms(2)]
        by (simp add: options_response_def)
    qed
  next
    case m: False
    then obtain inner where i: "match_mount (S ''/api/health'') ?path = Some inner"
      "match_route (S ''/'') inner" "handles GET (req_method req) \<or> req_method req = OPTIONS"
      using c by auto
    show ?thesis
    proof (cases "handles GET (req_method req)")
      case h: True
      then show ?thesis using m i unfolding middleware_passed[OF assms(2)]
        by (simp add: healthRouter_def apiHealthHandler_def new_Date_def)
    next
      case h: False
      then have "req_method req = OPTIONS" using i by auto
      then show ?thesis using m h i unfolding middleware_passed[OF assms(2)]
        by (simp add: healthRouter_def options_response_def)
    qed
  qed
qed

text \<open>
  Claim C5, as stated, promises 404 from the default handler for every request whose method
  and path match no registered route. \<open>cors\<close>, as \<open>createApp\<close> configures it, ends every
  \<open>OPTIONS\<close> request itself, before route dispatch: an \<open>OPTIONS\<close> request for a path that no
  route has is answered 204 by that stage. And the reading of the claim by which only
  \<open>GET\<close> requests match fails too: the \<open>GET\<close> route of \<open>/health\<close> answers a \<open>HEAD\<close> request.
\<close>

theorem options_unmatched_counterexample:
  "matches_registered_route configured_packages (example_request OPTIONS ''/does-not-exist'') = False \<and>
   status (reply (app_handle configured_packages example_process
     (example_request OPTIONS ''/does-not-exist''))) = 204 \<and>
   sent_by (reply (app_handle configured_packages example_process
     (example_request OPTIONS ''/does-not-exist''))) = ByStage Cors \<and>
   steps (app_handle configured_packages example_process
     (example_request OPTIONS ''/does-not-exist'')) = [Ran Helmet, Ran Cors] \<and>
   status (reply (app_handle configured_packages example_process
     (example_request HEAD ''/health''))) = 200 \<and>
   sent_by (reply (app_handle configured_packages example_process
     (example_request HEAD ''/health''))) = ByHandler HealthHandler"
proof -
  have "\<not> routed configured_packages (example_request OPTIONS ''/does-not-exist'')"
    by (simp add: routed_def routed_paths_def example_paths S_def lower_def)
  then have a: "matches_registered_route configured_packages
      (example_request OPTIONS ''/does-not-exist'') = False"
    "status (reply (app_handle configured_packages example_process
       (example_request OPTIONS ''/does-not-exist''))) = 204"
    "sent_by (reply (app_handle configured_packages example_process
       (example_request OPTIONS ''/does-not-exist''))) = ByStage Cors"
    "steps (app_handle configured_packages example_process
       (example_request OPTIONS ''/does-not-exist'')) = [Ran Helmet, Ran Cors]"
    by (simp_all add: matched_iff_routed app_handle_def createApp_def run_stage_def
        configured_packages_def example_methods)
  have p: "passes configured_packages (example_request HEAD ''/health'')"
    by (simp add: passes_def configured_packages_def example_methods)
  have m: "match_route (S ''/health'') (pathname configured_packages (example_request HEAD ''/health''))"
    by (simp add: example_paths match_route_def)
  have u: "\<not> fresh v Map.empty tag" for v tag
    by (rule unconditional_stale) (simp add: truthy_def)
  have b: "status (reply (app_handle configured_packages example_process
       (example_request HEAD ''/health''))) = 200"
    "sent_by (reply (app_handle configured_packages example_process
       (example_request HEAD ''/health''))) = ByHandler HealthHandler"
    unfolding health_route_runs[OF p m, of example_process, simplified example_methods, simplified]
    by (simp_all add: healthHandler_def new_Date_def res_json_def req_fresh_def u example_methods
        Let_def)
  show ?thesis using a b by simp
qed

text \<open>
  Claim C5, amended. The registered routes are \<open>GET\<close> of \<open>/health\<close> and \<open>GET\<close> of the root of
  the router mounted at \<open>/api/health\<close>; as Express matches, they answer the methods \<open>GET\<close> and
  \<open>HEAD\<close>, and the router answers \<open>OPTIONS\<close> itself, for the paths \<open>/health\<close> and \<open>/api/health\<close>
  with an optional trailing slash, in any letter case. A request whose method and path
  match no registered route and which the middleware pass on is answered 404 by the final
  handler. Whatever the middleware do, such a request is never answered by a route: its
  answer comes from the final handler or from a middleware stage that ended the response
  (as \<open>cors\<close> does for \<open>OPTIONS\<close>). A request that matches a route and that the
  middleware pass on is answered by the route's handler or by the router, with status 200
  or 304, never by the final handler.
\<close>

theorem unmatched_request_404:
  "(matches_registered_route L req \<longleftrightarrow>
      (req_method req = GET \<or> req_method req = HEAD \<or> req_method req = OPTIONS) \<and>
      map lower (pathname L req) \<in>
        set [S ''/health'', S ''/health/'', S ''/api/health'', S ''/api/health/'',
             S ''/api/health//'']) \<and>
   (passes L req \<and> \<not> matches_registered_route L req \<longrightarrow>
      status (reply (app_handle L p req)) = 404 \<and>
      sent_by (reply (app_handle L p req)) = ByFinalHandler) \<and>
   (\<not> matches_registered_route L req \<longrightarrow>
      sent_by (reply (app_handle L p req)) = ByFinalHandler \<or>
      (\<exists>s. sent_by (reply (app_handle L p req)) = ByStage s)) \<and>
   (passes L req \<and> matches_registered_route L req \<longrightarrow>
      (status (reply (app_handle L p req)) = 200 \<or> status (reply (app_handle L p req)) = 304) \<and>
      (sent_by (reply (app_handle L p req)) = ByHandler HealthHandler \<or>
       sent_by (reply (app_handle L p req)) = ByHandler ApiHealthHandler \<or>
       sent_by (reply (app_handle L p req)) = ByRouterOptions))"
proof -
  have a: "matches_registered_route L req \<longleftrightarrow>
      (req_method req = GET \<or> req_method req = HEAD \<or> req_method req = OPTIONS) \<and>
      map lower (pathname L req) \<in>
        set [S ''/health'', S ''/health/'', S ''/api/health'', S ''/api/health/'',
             S ''/api/health//'']"
    using matched_iff_routed[of L req] by (simp only: routed_def routed_paths_def)
  have b: "passes L req \<and> \<not> matches_registered_route L req \<longrightarrow>
      status (reply (app_handle L p req)) = 404 \<and>
      sent_by (reply (app_handle L p req)) = ByFinalHandler"
    using unmatched_passed_404[of L req p] by (simp add: finalhandler_def)
  have c: "\<not> matches_registered_route L req \<longrightarrow>
      sent_by (reply (app_handle L p req)) = ByFinalHandler \<or>
      (\<exists>s. sent_by (reply (app_handle L p req)) = ByStage s)"
    using unmatched_never_routed[of L req p] by (rule impI)
  have d: "passes L req \<and> matches_registered_route L req \<longrightarrow>
      (status (reply (app_handle L p req)) = 200 \<or> status (reply (app_handle L p req)) = 304) \<and>
      (sent_by (reply (app_handle L p req)) = ByHandler HealthHandler \<or>
       sent_by (reply (app_handle L p req)) = ByHandler ApiHealthHandler \<or>
       sent_by (reply (app_handle L p req)) = ByRouterOptions)"
  proof (rule impI)
    assume h: "passes L req \<and> matches_registered_route L req"
    have r: "sent_by (reply (app_handle L p req)) = ByHandler HealthHandler \<or>
       sent_by (reply (app_handle L p req)) = ByHandler ApiHealthHandler \<or>
       sent_by (reply (app_handle L p req)) = ByRouterOptions"
      using matched_request_routed[of L req p] h by simp
    from routed_status[OF r] h r show "(status (reply (app_handle L p req)) = 200 \<or>
        status (reply (app_handle L p req)) = 304) \<and>
      (sent_by (reply (app_handle L p req)) = ByHandler HealthHandler \<or>
       sent_by (reply (app_handle L p req)) = ByHandler ApiHealthHandler \<or>
       sent_by (reply (app_handle L p req)) = ByRouterOptions)"
      by simp
  qed
  show ?thesis by (rule conjI[OF a conjI[OF b conjI[OF c d]]])
qed

theorem unmatched_request_404_witness:
  "status (reply (app_handle all_pass example_process (example_request GET ''/does-not-exist''))) = 404 \<and>
   status (reply (app_handle all_pass example_process (example_request POST ''/health''))) = 404 \<and>
   status (reply (app_handle all_pass example_process (example_request GET ''/api/health/extra''))) = 404 \<and>
   sent_by (reply (app_handle all_pass example_process (example_request GET ''/does-not-exist''))) =
     ByFinalHandler"
proof -
  have a: "\<not> matches_registered_route all_pass (example_request GET ''/does-not-exist'')"
    "\<not> matches_registered_route all_pass (example_request POST ''/health'')"
    "\<not> matches_registered_route all_pass (example_request GET ''/api/health/extra'')"
    by (simp_all add: matched_iff_routed routed_def routed_paths_def example_paths example_methods
        S_def lower_def)
  note t = unmatched_request_404[of all_pass _ example_process, THEN conjunct2, THEN conjunct1]
  show ?thesis
    using t[of "example_request GET ''/does-not-exist''"] t[of "example_request POST ''/health''"]
      t[of "example_request GET ''/api/health/extra''"] a example_passes
    by simp
qed

subsection \<open>Shutdown\<close>

lemmas shutdown_defs = gracefulShutdown_def httpServer_close_def net_Server_close_def
  mock_close_def emitCloseIfDrained_def console_log_def run_nextTicks_def emit_close_def

lemma count_list_replicate: "count_list (replicate n x) y = (if x = y then n else 0)"
  by (induction n) auto

lemma lines_differ:
  "received_line s \<noteq> closed_line" "closed_line \<noteq> received_line s"
  "received_line s = received_line s' \<longleftrightarrow> s = s'"
  by (simp_all add: received_line_def closed_line_def S_def)

lemma callbacks_run:
  "foldl (\<lambda>w' l. run_callback (fst l) w') w ls =
     w\<lparr> console := console w @ replicate (length ls) (Log closed_line) \<rparr>"
proof (induction ls arbitrary: w)
  case Nil
  show ?case by simp
next
  case (Cons l ls)
  have "run_callback (fst l) w = console_log closed_line w" by (cases "fst l") simp
  then show ?case using Cons[of "console_log closed_line w"]
    by (simp add: console_log_def replicate_append_same)
qed

lemma emit_close_eq:
  "emit_close w =
     w\<lparr> httpServer := (httpServer w)\<lparr> close_listeners := [] \<rparr>,
        console := console w @ replicate (waiting_callbacks w) (Log closed_line) \<rparr>"
  by (simp add: emit_close_def callbacks_run waiting_callbacks_def)

lemma emit_close_twice: "emit_close (emit_close w) = emit_close w"
  by (simp add: emit_close_eq waiting_callbacks_def)

lemma tasks_run: "foldl run_task w ts = (if ts = [] then w else emit_close w)"
proof (induction ts arbitrary: w)
  case Nil
  show ?case by simp
next
  case (Cons t ts)
  have "run_task w t = emit_close w" by (cases t) simp
  then show ?case using Cons[of "emit_close w"] by (simp add: emit_close_twice)
qed

lemma run_nextTicks_eq:
  "run_nextTicks w =
     (if nextTick w = [] then w
      else w\<lparr> nextTick := [],
              httpServer := (httpServer w)\<lparr> close_listeners := [] \<rparr>,
              console := console w @ replicate (waiting_callbacks w) (Log closed_line) \<rparr>)"
  by (simp add: run_nextTicks_def tasks_run emit_close_eq waiting_callbacks_def)

lemma gracefulShutdown_eq:
  "gracefulShutdown s w =
     (case close_impl (httpServer w) of
        MockClose \<Rightarrow> w\<lparr> console := console w @ [Log (received_line s), Log closed_line] \<rparr>
      | NodeClose \<Rightarrow>
          w\<lparr> console := console w @ [Log (received_line s)],
             httpServer := (httpServer w)
               \<lparr> close_listeners := close_listeners (httpServer w) @
                    [(ServerClosedCallback, \<not> listening (httpServer w))],
                 listening := False \<rparr>,
             nextTick := nextTick w @ (if connections (httpServer w) = 0 then [EmitClose] else []) \<rparr>)"
  by (simp add: gracefulShutdown_def httpServer_close_def net_Server_close_def mock_close_def
      emitCloseIfDrained_def console_log_def Let_def split: close_impl.splits)

lemmas event_defs = gracefulShutdown_eq run_nextTicks_eq connection_opened_def
  connection_ended_def emitCloseIfDrained_def Let_def

lemma event_reports:
  "reports s (on_event w e) = reports s w + (if e = Shutdown s then 1 else 0)"
  by (cases e)
    (auto simp: reports_def event_defs count_list_replicate lines_differ split: close_impl.splits)

lemma event_confirmations:
  "confirmations (on_event w e) + waiting_callbacks (on_event w e) =
     confirmations w + waiting_callbacks w + length (shutdown_calls [e])"
  by (cases e)
    (auto simp: confirmations_def waiting_callbacks_def event_defs count_list_replicate lines_differ
      split: close_impl.splits)

lemma event_close_scheduled: "close_scheduled w \<Longrightarrow> close_scheduled (on_event w e)"
  by (cases e) (auto simp: close_scheduled_def event_defs split: close_impl.splits)

lemma event_close_impl: "close_impl (httpServer (on_event w e)) = close_impl (httpServer w)"
  by (cases e) (auto simp: event_defs split: close_impl.splits)

lemma event_listening:
  "\<not> listening (httpServer w) \<Longrightarrow> \<not> listening (httpServer (on_event w e))"
  by (cases e) (auto simp: event_defs split: close_impl.splits)

lemma shutdown_calls_append: "shutdown_calls (es @ fs) = shutdown_calls es @ shutdown_calls fs"
  by (induction es rule: shutdown_calls.induct) simp_all

lemma run_events_append: "run_events w (es @ fs) = run_events (run_events w es) fs"
  by (simp add: run_events_def)

lemma events_reports:
  "reports s (run_events w es) = reports s w + count_list (shutdown_calls es) s"
proof (induction es arbitrary: w)
  case Nil
  show ?case by (simp add: run_events_def)
next
  case (Cons e es)
  have "run_events w (e # es) = run_events (on_event w e) es" by (simp add: run_events_def)
  then show ?case using Cons[of "on_event w e"] event_reports[of s w e]
    by (cases e) auto
qed

lemma events_confirmations:
  "confirmations (run_events w es) + waiting_callbacks (run_events w es) =
     confirmations w + waiting_callbacks w + length (shutdown_calls es)"
proof (induction es arbitrary: w)
  case Nil
  show ?case by (simp add: run_events_def)
next
  case (Cons e es)
  have "run_events w (e # es) = run_events (on_event w e) es" by (simp add: run_events_def)
  then show ?case using Cons[of "on_event w e"] event_confirmations[of w e]
    by (cases e) auto
qed

lemma events_close_scheduled: "close_scheduled w \<Longrightarrow> close_scheduled (run_events w es)"
  by (induction es arbitrary: w) (simp_all add: run_events_def event_close_scheduled)

lemma events_close_impl: "close_impl (httpServer (run_events w es)) = close_impl (httpServer w)"
  by (induction es arbitrary: w) (simp_all add: run_events_def event_close_impl)

lemma events_listening:
  "\<not> listening (httpServer w) \<Longrightarrow> \<not> listening (httpServer (run_events w es))"
  by (induction es arbitrary: w) (simp_all add: run_events_def event_listening)

lemma events_stop_listening:
  "close_impl (httpServer w) = NodeClose \<Longrightarrow> shutdown_calls es \<noteq> [] \<Longrightarrow>
   \<not> listening (httpServer (run_events w es))"
proof (induction es arbitrary: w)
  case Nil
  then show ?case by simp
next
  case (Cons e es)
  have r: "run_events w (e # es) = run_events (on_event w e) es" by (simp add: run_events_def)
  show ?case
  proof (cases e)
    case (Shutdown s)
    then have "\<not> listening (httpServer (on_event w e))"
      using Cons.prems(1) by (simp add: gracefulShutdown_eq)
    then show ?thesis unfolding r by (rule events_listening)
  next
    case Tick
    then show ?thesis unfolding r
      using Cons.IH[of "on_event w e"] Cons.prems event_close_impl[of w e] by simp
  next
    case ConnectionOpened
    then show ?thesis unfolding r
      using Cons.IH[of "on_event w e"] Cons.prems event_close_impl[of w e] by simp
  next
    case ConnectionEnded
    then show ?thesis unfolding r
      using Cons.IH[of "on_event w e"] Cons.prems event_close_impl[of w e] by simp
  qed
qed

lemma connections_end:
  "\<not> listening (httpServer w) \<Longrightarrow> connections (httpServer w) = n \<Longrightarrow>
   connections (httpServer (run_events w (replicate n ConnectionEnded))) = 0"
proof (induction n arbitrary: w)
  case 0
  then show ?case by (simp add: run_events_def)
next
  case (Suc n)
  have "connections (httpServer (connection_ended w)) = n"
    "\<not> listening (httpServer (connection_ended w))"
    using Suc.prems by (simp_all add: connection_ended_def emitCloseIfDrained_def Let_def)
  from Suc.IH[OF this(2,1)] show ?case by (simp add: run_events_def)
qed

lemma tick_closes:
  "\<not> listening (httpServer w) \<Longrightarrow> connections (httpServer w) = 0 \<Longrightarrow> has_closed (run_nextTicks w)"
  by (simp add: has_closed_def run_nextTicks_eq)

lemma drain_closes:
  assumes "\<not> listening (httpServer w)"
  shows "has_closed (run_events w (drain w))"
proof -
  let ?w = "run_events w (replicate (connections (httpServer w)) ConnectionEnded)"
  have "\<not> listening (httpServer ?w)" using assms by (rule events_listening)
  moreover have "connections (httpServer ?w) = 0" using assms by (rule connections_end) simp
  ultimately have "has_closed (run_nextTicks ?w)" by (rule tick_closes)
  then show ?thesis by (simp add: drain_def run_events_append) (simp add: run_events_def)
qed

lemma drain_no_calls: "shutdown_calls (drain w) = []"
proof -
  have "shutdown_calls (replicate n ConnectionEnded) = []" for n by (induction n) simp_all
  then show ?thesis by (simp add: drain_def shutdown_calls_append)
qed

lemma closed_all_confirmed:
  assumes "close_scheduled w" "has_closed (run_events w es)"
  shows "confirmations (run_events w es) =
     confirmations w + waiting_callbacks w + length (shutdown_calls es)"
proof -
  have "close_scheduled (run_events w es)" using assms(1) by (rule events_close_scheduled)
  then have "waiting_callbacks (run_events w es) = 0"
    using assms(2) by (simp add: close_scheduled_def has_closed_def waiting_callbacks_def)
  then show ?thesis using events_confirmations[of w es] by simp
qed

text \<open>
  Claim C1, as stated, promises that two calls in succession enter the shutdown once and
  emit the confirmation once. On a listening server with no open connection, and equally
  under the mock of the tests, the confirmation is logged twice, and so is the line that
  reports the transition.
\<close>

theorem shutdown_twice_counterexample:
  "count_list
     (console (run_nextTicks
        (gracefulShutdown (S ''SIGINT'') (gracefulShutdown (S ''SIGTERM'') (example_server NodeClose)))))
     (Log closed_line) = 2 \<and>
   count_list
     (console (gracefulShutdown (S ''SIGINT'') (gracefulShutdown (S ''SIGTERM'') (example_server MockClose))))
     (Log closed_line) = 2 \<and>
   length (filter (\<lambda>c. c = Log (received_line (S ''SIGTERM'')) \<or> c = Log (received_line (S ''SIGINT'')))
     (console (gracefulShutdown (S ''SIGINT'') (gracefulShutdown (S ''SIGTERM'') (example_server NodeClose)))))
     = 2"
  by (simp add: shutdown_defs example_server_def Let_def closed_line_def received_line_def S_def)

text \<open>
  Claim C1, amended. \<open>gracefulShutdown\<close> has no failing branch and keeps no record of an
  earlier call. In every state of the server, a call logs its own line naming the signal
  and passes its own confirmation callback to \<open>httpServer.close\<close>: the server stops
  listening and the callback waits for the \<open>close\<close> event (under the mock of the tests it
  runs at once). So over any course of events (calls of \<open>gracefulShutdown\<close>, ticks,
  connections that open and end, in any order) the lines that report a signal are as many
  as the calls with that signal, and the confirmations logged and the callbacks still
  waiting are, together, as many more as there were calls. Once the server has closed (it
  does not listen, no connection is left, the queued tasks have run) no callback waits: the
  confirmation has been logged once for every call, twice after two calls. And the server
  does close: after a call, when the connections that are left have ended and the queued
  tasks have run. (This is for a server that, while callbacks wait on it, is still open or
  has the event queued: so it is before its first \<open>close\<close>, and so it stays.)
\<close>

theorem gracefulShutdown_effect:
  "console (gracefulShutdown s w) =
     console w @ [Log (received_line s)] @
     (if close_impl (httpServer w) = MockClose then [Log closed_line] else []) \<and>
   (close_impl (httpServer w) = NodeClose \<longrightarrow>
      \<not> listening (httpServer (gracefulShutdown s w)) \<and>
      close_listeners (httpServer (gracefulShutdown s w)) =
        close_listeners (httpServer w) @ [(ServerClosedCallback, \<not> listening (httpServer w))]) \<and>
   reports s (run_events w es) = reports s w + count_list (shutdown_calls es) s \<and>
   confirmations (run_events w es) + waiting_callbacks (run_events w es) =
     confirmations w + waiting_callbacks w + length (shutdown_calls es) \<and>
   (close_listeners (httpServer w) = [] \<longrightarrow> close_scheduled w) \<and>
   (close_scheduled w \<longrightarrow> close_scheduled (run_events w es)) \<and>
   (close_scheduled w \<and> has_closed (run_events w es) \<longrightarrow>
      confirmations (run_events w es) =
        confirmations w + waiting_callbacks w + length (shutdown_calls es)) \<and>
   (close_scheduled w \<and> close_impl (httpServer w) = NodeClose \<and> shutdown_calls es \<noteq> [] \<longrightarrow>
      has_closed (run_events w (es @ drain (run_events w es))) \<and>
      confirmations (run_events w (es @ drain (run_events w es))) =
        confirmations w + waiting_callbacks w + length (shutdown_calls es))"
proof -
  have i: "close_listeners (httpServer w) = [] \<longrightarrow> close_scheduled w"
    by (simp add: close_scheduled_def)
  have j: "close_scheduled w \<longrightarrow> close_scheduled (run_events w es)"
    using events_close_scheduled[of w es] by (rule impI)
  have a: "console (gracefulShutdown s w) =
     console w @ [Log (received_line s)] @
     (if close_impl (httpServer w) = MockClose then [Log closed_line] else [])"
    by (simp add: gracefulShutdown_eq split: close_impl.splits)
  have b: "close_impl (httpServer w) = NodeClose \<longrightarrow>
      \<not> listening (httpServer (gracefulShutdown s w)) \<and>
      close_listeners (httpServer (gracefulShutdown s w)) =
        close_listeners (httpServer w) @ [(ServerClosedCallback, \<not> listening (httpServer w))]"
    by (simp add: gracefulShutdown_eq)
  have c: "close_scheduled w \<and> has_closed (run_events w es) \<longrightarrow>
      confirmations (run_events w es) =
        confirmations w + waiting_callbacks w + length (shutdown_calls es)"
    using closed_all_confirmed[of w es] by simp
  have d: "close_scheduled w \<and> close_impl (httpServer w) = NodeClose \<and> shutdown_calls es \<noteq> [] \<longrightarrow>
      has_closed (run_events w (es @ drain (run_events w es))) \<and>
      confirmations (run_events w (es @ drain (run_events w es))) =
        confirmations w + waiting_callbacks w + length (shutdown_calls es)"
  proof (rule impI)
    assume h: "close_scheduled w \<and> close_impl (httpServer w) = NodeClose \<and> shutdown_calls es \<noteq> []"
    then have "\<not> listening (httpServer (run_events w es))"
      using events_stop_listening[of w es] by simp
    then have cl: "has_closed (run_events w (es @ drain (run_events w es)))"
      unfolding run_events_append by (rule drain_closes)
    from closed_all_confirmed[OF _ cl] h
    have "confirmations (run_events w (es @ drain (run_events w es))) =
        confirmations w + waiting_callbacks w + length (shutdown_calls es)"
      by (simp add: shutdown_calls_append drain_no_calls)
    then show "has_closed (run_events w (es @ drain (run_events w es))) \<and>
      confirmations (run_events w (es @ drain (run_events w es))) =
        confirmations w + waiting_callbacks w + length (shutdown_calls es)"
      using cl by simp
  qed
  show ?thesis
    by (rule conjI[OF a conjI[OF b conjI[OF events_reports conjI[OF events_confirmations
      conjI[OF i conjI[OF j conjI[OF c d]]]]]]])
qed

theorem gracefulShutdown_effect_witness:
  "console (gracefulShutdown (S ''SIGTERM'') (example_server MockClose)) =
     [Log (received_line (S ''SIGTERM'')), Log closed_line] \<and>
   confirmations (run_events example_busy_server
     [Shutdown (S ''SIGTERM''), Tick, ConnectionEnded, Shutdown (S ''SIGINT''), ConnectionEnded, Tick]) = 2 \<and>
   reports (S ''SIGTERM'') (run_events example_busy_server
     [Shutdown (S ''SIGTERM''), Tick, ConnectionEnded, Shutdown (S ''SIGINT'')]) = 1 \<and>
   has_closed (run_events example_busy_server
     [Shutdown (S ''SIGTERM''), Tick, ConnectionEnded, Shutdown (S ''SIGINT''), ConnectionEnded, Tick])"
proof -
  let ?es = "[Shutdown (S ''SIGTERM''), Tick, ConnectionEnded, Shutdown (S ''SIGINT'')]"
  have d: "drain (run_events example_busy_server ?es) = [ConnectionEnded, Tick]"
    by (simp add: drain_def run_events_def event_defs example_busy_server_def)
  have h: "close_scheduled example_busy_server" "close_impl (httpServer example_busy_server) = NodeClose"
    "confirmations example_busy_server = 0" "waiting_callbacks example_busy_server = 0"
    "reports (S ''SIGTERM'') example_busy_server = 0"
    by (simp_all add: close_scheduled_def example_busy_server_def confirmations_def
        waiting_callbacks_def reports_def)
  have n: "S ''SIGINT'' \<noteq> S ''SIGTERM''" by (simp add: S_def)
  show ?thesis
    using gracefulShutdown_effect[of "S ''SIGTERM''" "example_server MockClose"]
      gracefulShutdown_effect[of "S ''SIGTERM''" example_busy_server ?es]
    by (simp add: d h n example_server_def)
qed

subsection \<open>The tests of the repository, replayed on the model\<close>

text \<open>
  The assertions of the repository's test suites (config, AppPage, app, health and index
  tests) hold of the model at the inputs the tests use.
\<close>


lemma config_tests:
  "port (serverConfig (Map.empty(S ''PORT'' \<mapsto> S ''4000''))) = Finite 4000"
  "port (serverConfig (Map.empty(S ''PORT'' \<mapsto> S ''not-a-number''))) = Finite 3000"
  "requestTimeout (serverConfig Map.empty) = Finite 30000"
  "requestTimeout (serverConfig (Map.empty(S ''REQUEST_TIMEOUT'' \<mapsto> S ''5000''))) = Finite 5000"
  "clientUrl (serverConfig (Map.empty(S ''VITE_DEV_PORT'' \<mapsto> S ''5200''))) = S ''http://localhost:5200''"
  "nodeEnv (serverConfig (Map.empty(S ''NODE_ENV'' \<mapsto> S ''production''))) = S ''production''"
  "logLevel (serverConfig Map.empty) = S ''info''"
  "logLevel (serverConfig (Map.empty(S ''LOG_LEVEL'' \<mapsto> S ''debug''))) = S ''debug''"
  by (simp_all add: serverConfig_def envNumber_def env_def js_or_def js_eval)

lemma AppPage_tests:
  "displayed_counter AppPage_mount = Finite 0"
  "displayed_counter (AppPage_after [ClickIncrement]) = Finite 1"
  "displayed_counter (AppPage_after [ClickIncrement, ClickIncrement, ClickIncrement]) = Finite 3"
  "displayed_status AppPage_mount = S ''Loading...''"
  "displayed_status (AppPage_after [FetchResolved (Some (S ''Server OK''))]) = S ''Server OK''"
  "displayed_status (AppPage_after [FetchRejected]) = S ''Server not connected''"
  by (simp_all add: displayed_counter_def displayed_status_def AppPage_after_def AppPage_mount_def
      js_add1_def js_or_def to_number_def round_to_double_def S_def)


lemma app_tests:
  "status (reply (app_handle all_pass example_process (example_request GET ''/unknown-route''))) = 404"
  "status (reply (app_handle all_pass example_process (example_request GET ''/health''))) = 200"
  "status (reply (app_handle all_pass example_process (example_request GET ''/api/health''))) = 200"
  "body (reply (app_handle all_pass example_process (example_request GET ''/api/health''))) =
     JsonBody (JObject [(S ''status'', JString (S ''ok'')),
                        (S ''message'', JString (S ''Server is running'')),
                        (S ''timestamp'', JString (S ''2025-11-02T00:00:00.000Z''))])"
proof -
  have u: "\<not> fresh v Map.empty tag" for v tag
    by (rule unconditional_stale) (simp add: truthy_def)
  show "status (reply (app_handle all_pass example_process (example_request GET ''/unknown-route''))) = 404"
    "status (reply (app_handle all_pass example_process (example_request GET ''/health''))) = 200"
    "status (reply (app_handle all_pass example_process (example_request GET ''/api/health''))) = 200"
    "body (reply (app_handle all_pass example_process (example_request GET ''/api/health''))) =
     JsonBody (JObject [(S ''status'', JString (S ''ok'')),
                        (S ''message'', JString (S ''Server is running'')),
                        (S ''timestamp'', JString (S ''2025-11-02T00:00:00.000Z''))])"
    unfolding middleware_passed[OF example_passes]
    by (simp_all add: example_paths example_methods example_process_def match_route_def
        match_mount_def handles_def healthRouter_def lower_def finalhandler_def healthHandler_def
        apiHealthHandler_def new_Date_def res_json_def req_fresh_def u logged_fields
        example_clock_string
        S_def[of "''/unknown-route''"] S_def[of "''/health''"] S_def[of "''/api/health''"]
        S_def[of "''/''"])
qed

text \<open>
  Targets that \<open>url.parse\<close> reads: a fragment, and the absolute form. The path routed on is
  that of the target, and the route answers.
\<close>

lemma parsed_targets:
  "pathname all_pass (example_request GET ''/health#frag'') = S ''/health''"
  "pathname all_pass (example_request GET ''http://example.com/health'') = S ''/health''"
  "pathname all_pass (example_request GET ''http://example.com/api/health?x=1'') = S ''/api/health''"
  "pathname all_pass (example_request GET ''http://example.com'') = S ''/''"
  by (simp_all add: pathname_def fastparse_def needs_url_parse_def example_request_def all_pass_def
      example_url_parse_def drop_protohost_def ends_host_def S_def)

lemma parsed_targets_answered:
  "status (reply (app_handle all_pass example_process (example_request GET ''/health#frag''))) = 200"
  "status (reply (app_handle all_pass example_process
     (example_request GET ''http://example.com/health''))) = 200"
proof -
  have u: "\<not> fresh v Map.empty tag" for v tag
    by (rule unconditional_stale) (simp add: truthy_def)
  show "status (reply (app_handle all_pass example_process (example_request GET ''/health#frag''))) = 200"
    "status (reply (app_handle all_pass example_process
       (example_request GET ''http://example.com/health''))) = 200"
    unfolding health_reply[OF example_passes parsed_targets(1) example_methods(1)]
      health_reply[OF example_passes parsed_targets(2) example_methods(1)]
    by (simp_all add: res_json_def req_fresh_def u example_methods)
qed

text \<open>
  Conditional requests: \<open>If-None-Match\<close> with the entity tag of the body or with \<open>*\<close> is
  fresh, with another tag it is not, and \<open>Cache-Control: no-cache\<close> makes any request stale.
\<close>

lemma fresh_examples:
  "fresh v [S ''if-none-match'' \<mapsto> S ''*''] (S ''W/x'')"
  "fresh v [S ''if-none-match'' \<mapsto> S ''a, W/x''] (S ''W/x'')"
  "fresh v [S ''if-none-match'' \<mapsto> S ''x''] (S ''W/x'')"
  "\<not> fresh v [S ''if-none-match'' \<mapsto> S ''y''] (S ''W/x'')"
  "\<not> fresh v [S ''if-none-match'' \<mapsto> S ''*'', S ''cache-control'' \<mapsto> S ''max-age=0, no-cache''] (S ''W/x'')"
  "\<not> fresh v [S ''if-modified-since'' \<mapsto> S ''Sun, 02 Nov 2025 00:00:00 GMT''] (S ''W/x'')"
  "fresh Express5 [S ''if-none-match'' \<mapsto> S ''*'', S ''if-modified-since'' \<mapsto> S ''x''] (S ''W/x'')"
  "\<not> fresh Express4 [S ''if-none-match'' \<mapsto> S ''*'', S ''if-modified-since'' \<mapsto> S ''x''] (S ''W/x'')"
  by (cases v; simp add: fresh_def truthy_def header_value_def parseTokenList_def trim_def
      etag_matches_def no_cache_def isWhiteSpace_def S_def)+

lemma index_tests:
  "console (gracefulShutdown (S ''SIGTERM'') (example_server MockClose)) =
     [Log (0xA # S ''[Server] SIGTERM received, shutting down gracefully...''),
      Log (S ''[Server] HTTP server closed'')]"
  "console (gracefulShutdown (S ''SIGINT'') (example_server MockClose)) =
     [Log (0xA # S ''[Server] SIGINT received, shutting down gracefully...''),
      Log (S ''[Server] HTTP server closed'')]"
  by (simp_all add: shutdown_defs example_server_def closed_line_def received_line_def S_def)

lemma Date_parse_examples:
  "Date_parse (S ''2024-02-29T12:00:00.000Z'') = Some 1709208000000"
  "Date_parse (S ''2023-02-29T12:00:00.000Z'') = None"
  "Date_parse (S ''Invalid Date'') = None"
  by code_simp+


end
